theory Spec2Isabelle
  imports Complex_Main
begin

section \<open>Data model\<close>

text \<open>
  The two source files are \<^verbatim>\<open>src/App.tsx\<close> (the React component with the main-thread
  fallback AI) and the web worker \<^verbatim>\<open>engine/ai.worker.ts\<close> (the background AI).  Both are
  clients of the \<^verbatim>\<open>chess.js\<close> rules engine, which is not part of the repository: the
  engine is a parameter of every definition below.
\<close>

datatype color = White | Black

text \<open>The piece symbols \<^verbatim>\<open>'p' 'n' 'b' 'r' 'q' 'k'\<close> of the rules engine.\<close>

datatype piece_symbol = Pawn | Knight | Bishop | Rook | Queen | King

text \<open>A square of \<^verbatim>\<open>game.board()\<close> is \<^verbatim>\<open>null\<close> or a piece with a type and a colour.\<close>

record piece =
  ptype :: piece_symbol
  pcolor :: color

text \<open>\<^verbatim>\<open>type MoveObj = { from: string; to: string; promotion?: 'q' | 'r' | 'b' | 'n' }\<close>\<close>

record moveobj =
  mfrom :: string
  mto :: string
  mpromotion :: "piece_symbol option"

text \<open>
  A verbose move of \<^verbatim>\<open>game.moves({ verbose: true })\<close>, with the fields the program reads:
  \<^verbatim>\<open>from\<close>, \<^verbatim>\<open>to\<close>, \<^verbatim>\<open>piece\<close>, \<^verbatim>\<open>captured\<close>, \<^verbatim>\<open>promotion\<close> and \<^verbatim>\<open>san\<close>.
\<close>

record vmove =
  v_from :: string
  v_to :: string
  v_piece :: piece_symbol
  v_captured :: "piece_symbol option"
  v_promotion :: "piece_symbol option"
  v_san :: string

text \<open>
  What \<^verbatim>\<open>game.move(m)\<close> can do: apply the move and return a truthy move object; reject it
  by throwing \<^verbatim>\<open>Invalid move\<close>, as the releases of \<^verbatim>\<open>chess.js\<close> do whose interface the program
  uses (\<^verbatim>\<open>isCheckmate\<close>, \<^verbatim>\<open>isGameOver\<close>, \<^verbatim>\<open>inCheck\<close>); or reject it by returning
  \<^verbatim>\<open>null\<close> and leaving the game as it is, as earlier releases did (the result that the
  guards \<^verbatim>\<open>if (ok)\<close> and \<^verbatim>\<open>if (!mv)\<close> of the program test).
\<close>

datatype 'g move_result = Moved 'g | RejectedNull | RejectedThrow

text \<open>
  The interface of a \<^verbatim>\<open>Chess\<close> object, over an abstract type \<open>'g\<close> of game objects (board,
  side to move, history).  \<open>moves\<close> is the verbose enumeration; the plain enumeration
  \<^verbatim>\<open>game.moves()\<close> lists the same moves in algebraic notation, so its length is the length
  of \<open>moves\<close>.  \<open>load\<close> is the constructor \<^verbatim>\<open>new Chess(fen)\<close>.
\<close>

record 'g chess =
  moves :: "'g \<Rightarrow> vmove list"
  move :: "'g \<Rightarrow> moveobj \<Rightarrow> 'g move_result"
  undo :: "'g \<Rightarrow> 'g"
  board :: "'g \<Rightarrow> piece option list list"
  turn :: "'g \<Rightarrow> color"
  inCheck :: "'g \<Rightarrow> bool"
  isCheckmate :: "'g \<Rightarrow> bool"
  isDraw :: "'g \<Rightarrow> bool"
  isStalemate :: "'g \<Rightarrow> bool"
  isInsufficientMaterial :: "'g \<Rightarrow> bool"
  isThreefoldRepetition :: "'g \<Rightarrow> bool"
  isGameOver :: "'g \<Rightarrow> bool"
  fen :: "'g \<Rightarrow> string"
  load :: "string \<Rightarrow> 'g"

subsection \<open>Scores\<close>

text \<open>
  Every score the program computes is an integer of magnitude at most \<open>10^15\<close>, which a
  JavaScript number holds exactly, or one of \<^verbatim>\<open>-Infinity\<close> and \<^verbatim>\<open>Infinity\<close>.
\<close>

datatype score = NegInf | Fin int | PosInf

instantiation score :: linorder
begin

fun less_eq_score :: "score \<Rightarrow> score \<Rightarrow> bool" where
  "less_eq_score NegInf y = True"
| "less_eq_score (Fin a) NegInf = False"
| "less_eq_score (Fin a) (Fin b) = (a \<le> b)"
| "less_eq_score (Fin a) PosInf = True"
| "less_eq_score PosInf NegInf = False"
| "less_eq_score PosInf (Fin b) = False"
| "less_eq_score PosInf PosInf = True"

definition less_score :: "score \<Rightarrow> score \<Rightarrow> bool" where
  "less_score x y = (x \<le> y \<and> \<not> y \<le> x)"

instance
proof
  fix x y z :: score
  show "(x < y) = (x \<le> y \<and> \<not> y \<le> x)"
    by (simp add: less_score_def)
  show "x \<le> x"
    by (cases x) simp_all
  show "x \<le> y \<Longrightarrow> y \<le> z \<Longrightarrow> x \<le> z"
    by (cases x; cases y; cases z) simp_all
  show "x \<le> y \<Longrightarrow> y \<le> x \<Longrightarrow> x = y"
    by (cases x; cases y) simp_all
  show "x \<le> y \<or> y \<le> x"
    by (cases x; cases y) auto
qed

end

subsection \<open>Piece values and short moves (main thread)\<close>

text \<open>
  \<^verbatim>\<open>const VAL: Record<string, number> = { p: 100, n: 320, b: 330, r: 500, q: 900, k: 0 }\<close>,
  read as \<^verbatim>\<open>VAL[x] ?? 0\<close>.
\<close>

fun VAL :: "piece_symbol \<Rightarrow> int option" where
  "VAL Pawn = Some 100"
| "VAL Knight = Some 320"
| "VAL Bishop = Some 330"
| "VAL Rook = Some 500"
| "VAL Queen = Some 900"
| "VAL King = Some 0"

definition valOr0 :: "piece_symbol \<Rightarrow> int" where
  "valOr0 x = (case VAL x of Some v \<Rightarrow> v | None \<Rightarrow> 0)"

definition toShort :: "vmove \<Rightarrow> moveobj" where
  "toShort m =
     (case v_promotion m of
        Some p \<Rightarrow> \<lparr>mfrom = v_from m, mto = v_to m, mpromotion = Some p\<rparr>
      | None \<Rightarrow> \<lparr>mfrom = v_from m, mto = v_to m, mpromotion = None\<rparr>)"

subsection \<open>The evaluator (main thread)\<close>

fun evalRow :: "piece option list \<Rightarrow> int \<Rightarrow> int" where
  "evalRow [] score = score"
| "evalRow (None # row) score = evalRow row score"
| "evalRow (Some sq # row) score =
     (let v = valOr0 (ptype sq)
      in evalRow row (score + (if pcolor sq = White then v else - v)))"

fun evalBoard :: "piece option list list \<Rightarrow> int \<Rightarrow> int" where
  "evalBoard [] score = score"
| "evalBoard (row # rows) score = evalBoard rows (evalRow row score)"

definition evaluate :: "'g chess \<Rightarrow> 'g \<Rightarrow> int" where
  "evaluate e game =
     (let score0 = evalBoard (board e game) 0;
          t = turn e game;
          legal = int (length (moves e game));
          score1 = score0 + (if t = White then 1 else - 1) * min legal 30;
          score2 = (if inCheck e game then score1 + (if t = White then - 15 else 15) else score1)
      in if isCheckmate e game then (if t = White then - (10 ^ 9) else 10 ^ 9)
         else if isDraw e game \<or> isStalemate e game \<or> isInsufficientMaterial e game
                 \<or> isThreefoldRepetition e game then 0
         else score2)"

subsection \<open>Outcomes of a call\<close>

text \<open>
  A call returns (\<open>Done\<close>), is left by an uncaught exception of the rules engine
  (\<open>Thrown\<close>: the program has no \<^verbatim>\<open>try\<close> around a strategy or a handler), or, in the
  model, runs out of fuel (\<open>OutOfFuel\<close>): the recursion of \<^verbatim>\<open>search\<close> stops at
  \<^verbatim>\<open>depth === 0\<close> or at a finished game, which a negative depth may never reach.
\<close>

datatype 'a outcome = Done 'a | Thrown | OutOfFuel

text \<open>
  \<^verbatim>\<open>game.move(toShort(m))\<close> inside the search, where the result is not looked at: a
  \<^verbatim>\<open>null\<close> leaves the game as it was and the search goes on.
\<close>

definition doMove :: "'g chess \<Rightarrow> 'g \<Rightarrow> moveobj \<Rightarrow> 'g outcome" where
  "doMove e game m =
     (case move e game m of
        Moved g' \<Rightarrow> Done g'
      | RejectedNull \<Rightarrow> Done game
      | RejectedThrow \<Rightarrow> Thrown)"

subsection \<open>Random and greedy strategies (main thread)\<close>

text \<open>
  \<^verbatim>\<open>ms[Math.floor(Math.random() * ms.length)]\<close>: the draw \<open>r\<close> of \<^verbatim>\<open>Math.random()\<close> is an
  input.  An index outside the array reads \<^verbatim>\<open>undefined\<close>, on which \<^verbatim>\<open>toShort\<close> throws.
  The product is the exact one here; the program floors the product rounded to a double,
  which for some draws is the next index, within the same range.
\<close>

definition randomElement :: "vmove list \<Rightarrow> real \<Rightarrow> moveobj option outcome" where
  "randomElement ms r =
     (let i = \<lfloor>r * real (length ms)\<rfloor>
      in if 0 \<le> i \<and> i < int (length ms) then Done (Some (toShort (ms ! nat i))) else Thrown)"

definition randomPick :: "'g chess \<Rightarrow> 'g \<Rightarrow> real \<Rightarrow> moveobj option outcome" where
  "randomPick e game r =
     (let ms = moves e game
      in if ms = [] then Done None else randomElement ms r)"

text \<open>The score \<^verbatim>\<open>s\<close> that the body of the loop of \<^verbatim>\<open>greedyPick\<close> gives to a move.\<close>

definition greedyScore :: "vmove \<Rightarrow> int" where
  "greedyScore m =
     (let s0 = 0;
          s1 = (case v_captured m of
                  Some c \<Rightarrow> s0 + (valOr0 c - valOr0 (v_piece m) + 1)
                | None \<Rightarrow> s0);
          san = v_san m
      in if CHR ''#'' \<in> set san then s1 + 10 ^ 9
         else if CHR ''+'' \<in> set san then s1 + 5
         else s1)"

fun greedyLoop :: "vmove list \<Rightarrow> vmove option \<Rightarrow> int \<Rightarrow> vmove option \<times> int" where
  "greedyLoop [] best bestScore = (best, bestScore)"
| "greedyLoop (m # ms) best bestScore =
     (let s = greedyScore m
      in if s > bestScore then greedyLoop ms (Some m) s
         else greedyLoop ms best bestScore)"

definition greedyPick :: "'g chess \<Rightarrow> 'g \<Rightarrow> real \<Rightarrow> moveobj option outcome" where
  "greedyPick e game r =
     (let ms = moves e game
      in if ms = [] then Done None
         else (case fst (greedyLoop ms None (- (10 ^ 15))) of
                 Some best \<Rightarrow> Done (Some (toShort best))
               | None \<Rightarrow> randomElement ms r))"

subsection \<open>Minimax with alpha-beta pruning (main thread)\<close>

text \<open>
  The two loops of \<^verbatim>\<open>search\<close>, over the moves still to visit, with the loop variables
  \<^verbatim>\<open>val\<close>, \<^verbatim>\<open>alpha\<close>, \<^verbatim>\<open>beta\<close> and the game object; \<open>rec\<close> is the recursive call
  \<^verbatim>\<open>search(depth - 1, _, _)\<close>.
\<close>

fun maxLoop :: "'g chess \<Rightarrow> (score \<Rightarrow> score \<Rightarrow> 'g \<Rightarrow> (score \<times> 'g) outcome) \<Rightarrow> vmove list
    \<Rightarrow> score \<Rightarrow> score \<Rightarrow> score \<Rightarrow> 'g \<Rightarrow> (score \<times> 'g) outcome" where
  "maxLoop e rec [] val alpha beta game = Done (val, game)"
| "maxLoop e rec (m # mv) val alpha beta game =
     (case doMove e game (toShort m) of
        Done g1 \<Rightarrow>
          (case rec alpha beta g1 of
             Done (child, g2) \<Rightarrow>
               (let g3 = undo e g2;
                    val' = max val child;
                    alpha' = max alpha val'
                in if alpha' \<ge> beta then Done (val', g3)
                   else maxLoop e rec mv val' alpha' beta g3)
           | Thrown \<Rightarrow> Thrown
           | OutOfFuel \<Rightarrow> OutOfFuel)
      | Thrown \<Rightarrow> Thrown
      | OutOfFuel \<Rightarrow> OutOfFuel)"

fun minLoop :: "'g chess \<Rightarrow> (score \<Rightarrow> score \<Rightarrow> 'g \<Rightarrow> (score \<times> 'g) outcome) \<Rightarrow> vmove list
    \<Rightarrow> score \<Rightarrow> score \<Rightarrow> score \<Rightarrow> 'g \<Rightarrow> (score \<times> 'g) outcome" where
  "minLoop e rec [] val alpha beta game = Done (val, game)"
| "minLoop e rec (m # mv) val alpha beta game =
     (case doMove e game (toShort m) of
        Done g1 \<Rightarrow>
          (case rec alpha beta g1 of
             Done (child, g2) \<Rightarrow>
               (let g3 = undo e g2;
                    val' = min val child;
                    beta' = min beta val'
                in if alpha \<ge> beta' then Done (val', g3)
                   else minLoop e rec mv val' alpha beta' g3)
           | Thrown \<Rightarrow> Thrown
           | OutOfFuel \<Rightarrow> OutOfFuel)
      | Thrown \<Rightarrow> Thrown
      | OutOfFuel \<Rightarrow> OutOfFuel)"

text \<open>
  \<^verbatim>\<open>search(depth, alpha, beta)\<close> on the shared game object.  The first argument after the
  engine is the fuel: each call of \<^verbatim>\<open>search\<close> uses one unit.
\<close>

primrec search :: "'g chess \<Rightarrow> nat \<Rightarrow> int \<Rightarrow> score \<Rightarrow> score \<Rightarrow> 'g \<Rightarrow> (score \<times> 'g) outcome" where
  "search e 0 depth alpha beta game = OutOfFuel"
| "search e (Suc fuel) depth alpha beta game =
     (if depth = 0 \<or> isGameOver e game then Done (Fin (evaluate e game), game)
      else (let mv = moves e game
            in if mv = [] then Done (Fin (evaluate e game), game)
               else if turn e game = White
                 then maxLoop e (search e fuel (depth - 1)) mv NegInf alpha beta game
                 else minLoop e (search e fuel (depth - 1)) mv PosInf alpha beta game))"

text \<open>The loop over the root moves, with the loop variables \<^verbatim>\<open>best\<close> and \<^verbatim>\<open>bestScore\<close>.\<close>

fun rootLoop :: "'g chess \<Rightarrow> (score \<Rightarrow> score \<Rightarrow> 'g \<Rightarrow> (score \<times> 'g) outcome) \<Rightarrow> bool \<Rightarrow> vmove list
    \<Rightarrow> vmove option \<Rightarrow> score \<Rightarrow> 'g \<Rightarrow> ((vmove option \<times> score) \<times> 'g) outcome" where
  "rootLoop e rec aiWhite [] best bestScore game = Done ((best, bestScore), game)"
| "rootLoop e rec aiWhite (m # rest) best bestScore game =
     (case doMove e game (toShort m) of
        Done g1 \<Rightarrow>
          (case rec NegInf PosInf g1 of
             Done (v, g2) \<Rightarrow>
               (let g3 = undo e g2
                in if (if aiWhite then v > bestScore else v < bestScore)
                   then rootLoop e rec aiWhite rest (Some m) v g3
                   else rootLoop e rec aiWhite rest best bestScore g3)
           | Thrown \<Rightarrow> Thrown
           | OutOfFuel \<Rightarrow> OutOfFuel)
      | Thrown \<Rightarrow> Thrown
      | OutOfFuel \<Rightarrow> OutOfFuel)"

text \<open>
  \<^verbatim>\<open>minimaxPickMain\<close> up to its last line: the best verbose move, its score and the game
  object after the loop.
\<close>

definition minimaxRootMain :: "'g chess \<Rightarrow> nat \<Rightarrow> 'g \<Rightarrow> int \<Rightarrow> color
    \<Rightarrow> ((vmove option \<times> score) \<times> 'g) outcome" where
  "minimaxRootMain e fuel game depthLimit aiColor =
     (let aiWhite = (aiColor = White)
      in rootLoop e (search e fuel (depthLimit - 1)) aiWhite (moves e game) None
           (if aiWhite then NegInf else PosInf) game)"

definition minimaxPickMain :: "'g chess \<Rightarrow> nat \<Rightarrow> 'g \<Rightarrow> int \<Rightarrow> color
    \<Rightarrow> (moveobj option \<times> 'g) outcome" where
  "minimaxPickMain e fuel game depthLimit aiColor =
     (if moves e game = [] then Done (None, game)
      else (case minimaxRootMain e fuel game depthLimit aiColor of
              Done ((best, bestScore), g') \<Rightarrow>
                Done ((case best of Some b \<Rightarrow> Some (toShort b) | None \<Rightarrow> None), g')
            | Thrown \<Rightarrow> Thrown
            | OutOfFuel \<Rightarrow> OutOfFuel))"

section \<open>The worker\<close>

text \<open>
  The worker file repeats the constants and functions of the main thread under the same
  names; its copies carry the suffix \<open>_w\<close> here where the names coincide
  (\<^verbatim>\<open>VAL\<close>, \<^verbatim>\<open>toShort\<close>, \<^verbatim>\<open>evaluate\<close>, \<^verbatim>\<open>search\<close>).
\<close>

subsection \<open>Piece values and short moves (worker)\<close>

text \<open>
  \<^verbatim>\<open>const VAL: Record<string, number> = { p: 100, n: 320, b: 330, r: 500, q: 900, k: 0 }\<close>,
  read as \<^verbatim>\<open>VAL[x] ?? 0\<close>.
\<close>

fun VAL_w :: "piece_symbol \<Rightarrow> int option" where
  "VAL_w Pawn = Some 100"
| "VAL_w Knight = Some 320"
| "VAL_w Bishop = Some 330"
| "VAL_w Rook = Some 500"
| "VAL_w Queen = Some 900"
| "VAL_w King = Some 0"

definition valOr0_w :: "piece_symbol \<Rightarrow> int" where
  "valOr0_w x = (case VAL_w x of Some v \<Rightarrow> v | None \<Rightarrow> 0)"

definition toShort_w :: "vmove \<Rightarrow> moveobj" where
  "toShort_w m =
     (case v_promotion m of
        Some p \<Rightarrow> \<lparr>mfrom = v_from m, mto = v_to m, mpromotion = Some p\<rparr>
      | None \<Rightarrow> \<lparr>mfrom = v_from m, mto = v_to m, mpromotion = None\<rparr>)"

subsection \<open>The evaluator (worker)\<close>

fun evalRow_w :: "piece option list \<Rightarrow> int \<Rightarrow> int" where
  "evalRow_w [] score = score"
| "evalRow_w (None # row) score = evalRow_w row score"
| "evalRow_w (Some sq # row) score =
     (let v = valOr0_w (ptype sq)
      in evalRow_w row (score + (if pcolor sq = White then v else - v)))"

fun evalBoard_w :: "piece option list list \<Rightarrow> int \<Rightarrow> int" where
  "evalBoard_w [] score = score"
| "evalBoard_w (row # rows) score = evalBoard_w rows (evalRow_w row score)"

definition evaluate_w :: "'g chess \<Rightarrow> 'g \<Rightarrow> int" where
  "evaluate_w e game =
     (let score0 = evalBoard_w (board e game) 0;
          t = turn e game;
          legal = int (length (moves e game));
          score1 = score0 + (if t = White then 1 else - 1) * min legal 30;
          score2 = (if inCheck e game then score1 + (if t = White then - 15 else 15) else score1)
      in if isCheckmate e game then (if t = White then - (10 ^ 9) else 10 ^ 9)
         else if isDraw e game \<or> isStalemate e game \<or> isInsufficientMaterial e game
                 \<or> isThreefoldRepetition e game then 0
         else score2)"

subsection \<open>Random and greedy strategies (worker)\<close>

text \<open>
  \<^verbatim>\<open>ms[Math.floor(Math.random() * ms.length)]\<close>: the draw \<open>r\<close> of \<^verbatim>\<open>Math.random()\<close> is an
  input.  An index outside the array reads \<^verbatim>\<open>undefined\<close>, on which \<^verbatim>\<open>toShort\<close> throws.
  The product is the exact one here; the program floors the product rounded to a double,
  which for some draws is the next index, within the same range.
\<close>

definition randomElement_w :: "vmove list \<Rightarrow> real \<Rightarrow> moveobj option outcome" where
  "randomElement_w ms r =
     (let i = \<lfloor>r * real (length ms)\<rfloor>
      in if 0 \<le> i \<and> i < int (length ms) then Done (Some (toShort_w (ms ! nat i))) else Thrown)"

definition randomPicker :: "'g chess \<Rightarrow> 'g \<Rightarrow> real \<Rightarrow> moveobj option outcome" where
  "randomPicker e game r =
     (let ms = moves e game
      in if ms = [] then Done None else randomElement_w ms r)"

text \<open>The score \<^verbatim>\<open>s\<close> that the body of the loop of \<^verbatim>\<open>greedyPicker\<close> gives to a move.\<close>

definition greedyScore_w :: "vmove \<Rightarrow> int" where
  "greedyScore_w m =
     (let s0 = 0;
          s1 = (case v_captured m of
                  Some c \<Rightarrow> s0 + (valOr0_w c - valOr0_w (v_piece m) + 1)
                | None \<Rightarrow> s0);
          san = v_san m
      in if CHR ''#'' \<in> set san then s1 + 10 ^ 9
         else if CHR ''+'' \<in> set san then s1 + 5
         else s1)"

fun greedyLoop_w :: "vmove list \<Rightarrow> vmove option \<Rightarrow> int \<Rightarrow> vmove option \<times> int" where
  "greedyLoop_w [] best bestScore = (best, bestScore)"
| "greedyLoop_w (m # ms) best bestScore =
     (let s = greedyScore_w m
      in if s > bestScore then greedyLoop_w ms (Some m) s
         else greedyLoop_w ms best bestScore)"

definition greedyPicker :: "'g chess \<Rightarrow> 'g \<Rightarrow> real \<Rightarrow> moveobj option outcome" where
  "greedyPicker e game r =
     (let ms = moves e game
      in if ms = [] then Done None
         else (case fst (greedyLoop_w ms None (- (10 ^ 15))) of
                 Some best \<Rightarrow> Done (Some (toShort_w best))
               | None \<Rightarrow> randomElement_w ms r))"

subsection \<open>Minimax with alpha-beta pruning (worker)\<close>

text \<open>
  The two loops of \<^verbatim>\<open>search\<close>, over the moves still to visit, with the loop variables
  \<^verbatim>\<open>val\<close>, \<^verbatim>\<open>alpha\<close>, \<^verbatim>\<open>beta\<close> and the game object; \<open>rec\<close> is the recursive call
  \<^verbatim>\<open>search(depth - 1, _, _)\<close>.
\<close>

fun maxLoop_w :: "'g chess \<Rightarrow> (score \<Rightarrow> score \<Rightarrow> 'g \<Rightarrow> (score \<times> 'g) outcome) \<Rightarrow> vmove list
    \<Rightarrow> score \<Rightarrow> score \<Rightarrow> score \<Rightarrow> 'g \<Rightarrow> (score \<times> 'g) outcome" where
  "maxLoop_w e rec [] val alpha beta game = Done (val, game)"
| "maxLoop_w e rec (m # mv) val alpha beta game =
     (case doMove e game (toShort_w m) of
        Done g1 \<Rightarrow>
          (case rec alpha beta g1 of
             Done (child, g2) \<Rightarrow>
               (let g3 = undo e g2;
                    val' = max val child;
                    alpha' = max alpha val'
                in if alpha' \<ge> beta then Done (val', g3)
                   else maxLoop_w e rec mv val' alpha' beta g3)
           | Thrown \<Rightarrow> Thrown
           | OutOfFuel \<Rightarrow> OutOfFuel)
      | Thrown \<Rightarrow> Thrown
      | OutOfFuel \<Rightarrow> OutOfFuel)"

fun minLoop_w :: "'g chess \<Rightarrow> (score \<Rightarrow> score \<Rightarrow> 'g \<Rightarrow> (score \<times> 'g) outcome) \<Rightarrow> vmove list
    \<Rightarrow> score \<Rightarrow> score \<Rightarrow> score \<Rightarrow> 'g \<Rightarrow> (score \<times> 'g) outcome" where
  "minLoop_w e rec [] val alpha beta game = Done (val, game)"
| "minLoop_w e rec (m # mv) val alpha beta game =
     (case doMove e game (toShort_w m) of
        Done g1 \<Rightarrow>
          (case rec alpha beta g1 of
             Done (child, g2) \<Rightarrow>
               (let g3 = undo e g2;
                    val' = min val child;
                    beta' = min beta val'
                in if alpha \<ge> beta' then Done (val', g3)
                   else minLoop_w e rec mv val' alpha beta' g3)
           | Thrown \<Rightarrow> Thrown
           | OutOfFuel \<Rightarrow> OutOfFuel)
      | Thrown \<Rightarrow> Thrown
      | OutOfFuel \<Rightarrow> OutOfFuel)"

text \<open>
  \<^verbatim>\<open>search(depth, alpha, beta)\<close> on the shared game object.  The first argument after the
  engine is the fuel: each call of \<^verbatim>\<open>search\<close> uses one unit.
\<close>

primrec search_w :: "'g chess \<Rightarrow> nat \<Rightarrow> int \<Rightarrow> score \<Rightarrow> score \<Rightarrow> 'g \<Rightarrow> (score \<times> 'g) outcome" where
  "search_w e 0 depth alpha beta game = OutOfFuel"
| "search_w e (Suc fuel) depth alpha beta game =
     (if depth = 0 \<or> isGameOver e game then Done (Fin (evaluate_w e game), game)
      else (let mv = moves e game
            in if mv = [] then Done (Fin (evaluate_w e game), game)
               else if turn e game = White
                 then maxLoop_w e (search_w e fuel (depth - 1)) mv NegInf alpha beta game
                 else minLoop_w e (search_w e fuel (depth - 1)) mv PosInf alpha beta game))"

text \<open>The loop over the root moves, with the loop variables \<^verbatim>\<open>best\<close> and \<^verbatim>\<open>bestScore\<close>.\<close>

fun rootLoop_w :: "'g chess \<Rightarrow> (score \<Rightarrow> score \<Rightarrow> 'g \<Rightarrow> (score \<times> 'g) outcome) \<Rightarrow> bool \<Rightarrow> vmove list
    \<Rightarrow> vmove option \<Rightarrow> score \<Rightarrow> 'g \<Rightarrow> ((vmove option \<times> score) \<times> 'g) outcome" where
  "rootLoop_w e rec aiIsWhite [] best bestScore game = Done ((best, bestScore), game)"
| "rootLoop_w e rec aiIsWhite (m # rest) best bestScore game =
     (case doMove e game (toShort_w m) of
        Done g1 \<Rightarrow>
          (case rec NegInf PosInf g1 of
             Done (v, g2) \<Rightarrow>
               (let g3 = undo e g2
                in if (if aiIsWhite then v > bestScore else v < bestScore)
                   then rootLoop_w e rec aiIsWhite rest (Some m) v g3
                   else rootLoop_w e rec aiIsWhite rest best bestScore g3)
           | Thrown \<Rightarrow> Thrown
           | OutOfFuel \<Rightarrow> OutOfFuel)
      | Thrown \<Rightarrow> Thrown
      | OutOfFuel \<Rightarrow> OutOfFuel)"

text \<open>
  \<^verbatim>\<open>minimaxPick\<close> up to its last line: the best verbose move, its score and the game
  object after the loop.
\<close>

definition minimaxRoot :: "'g chess \<Rightarrow> nat \<Rightarrow> 'g \<Rightarrow> int \<Rightarrow> color
    \<Rightarrow> ((vmove option \<times> score) \<times> 'g) outcome" where
  "minimaxRoot e fuel game depthLimit aiColor =
     (let aiIsWhite = (aiColor = White)
      in rootLoop_w e (search_w e fuel (depthLimit - 1)) aiIsWhite (moves e game) None
           (if aiIsWhite then NegInf else PosInf) game)"

definition minimaxPick :: "'g chess \<Rightarrow> nat \<Rightarrow> 'g \<Rightarrow> int \<Rightarrow> color
    \<Rightarrow> (moveobj option \<times> 'g) outcome" where
  "minimaxPick e fuel game depthLimit aiColor =
     (if moves e game = [] then Done (None, game)
      else (case minimaxRoot e fuel game depthLimit aiColor of
              Done ((best, bestScore), g') \<Rightarrow>
                Done ((case best of Some b \<Rightarrow> Some (toShort_w b) | None \<Rightarrow> None), g')
            | Thrown \<Rightarrow> Thrown
            | OutOfFuel \<Rightarrow> OutOfFuel))"

subsection \<open>The message handler of the worker\<close>

datatype ai_mode = RandomMode | GreedyMode | MinimaxMode

text \<open>\<^verbatim>\<open>type Req = { id; fen; mode; depth; aiColor }\<close> and \<^verbatim>\<open>type Res = { id; move }\<close>\<close>

record req =
  req_id :: int
  req_fen :: string
  req_mode :: ai_mode
  req_depth :: int
  req_aiColor :: color

record res =
  res_id :: int
  res_move :: "moveobj option"

text \<open>
  The random and the greedy strategy only read \<^verbatim>\<open>game.moves(...)\<close>: the game object they
  leave behind is the one they were given.
\<close>

definition keepGame :: "'g \<Rightarrow> 'a outcome \<Rightarrow> ('a \<times> 'g) outcome" where
  "keepGame game x =
     (case x of Done v \<Rightarrow> Done (v, game) | Thrown \<Rightarrow> Thrown | OutOfFuel \<Rightarrow> OutOfFuel)"

text \<open>
  The choice of the strategy in \<^verbatim>\<open>self.onmessage\<close>, with the game object it leaves; \<open>r\<close> is
  the draw of \<^verbatim>\<open>Math.random()\<close>, should the strategy ask for one.
\<close>

definition strategyWorker :: "'g chess \<Rightarrow> nat \<Rightarrow> real \<Rightarrow> 'g \<Rightarrow> ai_mode \<Rightarrow> int \<Rightarrow> color
    \<Rightarrow> (moveobj option \<times> 'g) outcome" where
  "strategyWorker e fuel r game mode depth aiColor =
     (if mode = RandomMode then keepGame game (randomPicker e game r)
      else if mode = GreedyMode then keepGame game (greedyPicker e game r)
      else minimaxPick e fuel game depth aiColor)"

text \<open>
  \<^verbatim>\<open>self.onmessage\<close>.  The string it receives is the \<^verbatim>\<open>g.fen()\<close> that the component posts;
  \<^verbatim>\<open>new Chess(fen)\<close> on another string throws, which \<open>load\<close> does not model.
\<close>

definition workerOnmessage :: "'g chess \<Rightarrow> nat \<Rightarrow> real \<Rightarrow> req \<Rightarrow> res outcome" where
  "workerOnmessage e fuel r q =
     (let game = load e (req_fen q)
      in case strategyWorker e fuel r game (req_mode q) (req_depth q) (req_aiColor q) of
           Done (mv, g') \<Rightarrow> Done \<lparr>res_id = req_id q, res_move = mv\<rparr>
         | Thrown \<Rightarrow> Thrown
         | OutOfFuel \<Rightarrow> OutOfFuel)"

section \<open>The component: requests, responses and the fallback\<close>

text \<open>
  The refs and the React state of \<^verbatim>\<open>App\<close> that the handlers read and write.
  \<open>workerRef\<close> says whether \<^verbatim>\<open>workerRef.current\<close> holds a worker.  Every handler is taken
  to run after the render that follows the previous one, so that it sees the current state.
\<close>

record 'g app =
  gameRef :: 'g
  thinkingRef :: bool
  fenState :: string
  playVsAI :: bool
  aiPlays :: color
  aiMode :: ai_mode
  depthState :: int
  isThinking :: bool
  workerRef :: bool
  reqIdRef :: int

text \<open>
  What the closure \<^verbatim>\<open>doFallback\<close> of one call of \<^verbatim>\<open>requestAiMoveWithFallback\<close> holds: the
  snapshot \<^verbatim>\<open>g\<close>, \<^verbatim>\<open>aiMode\<close>, \<^verbatim>\<open>depth\<close> and \<^verbatim>\<open>aiColor\<close>.
\<close>

record 'g pending =
  p_game :: 'g
  p_mode :: ai_mode
  p_depth :: int
  p_aiColor :: color

text \<open>
  What a handler schedules: nothing; \<^verbatim>\<open>setTimeout(doFallback, 0)\<close>; or a message posted
  to the worker together with the timer of 2500 ms.
\<close>

datatype 'g effect = NoEffect | FallbackSoon "'g pending" | Posted req "'g pending"

text \<open>The choice of the strategy in \<^verbatim>\<open>doFallback\<close>.\<close>

definition strategyMain :: "'g chess \<Rightarrow> nat \<Rightarrow> real \<Rightarrow> 'g \<Rightarrow> ai_mode \<Rightarrow> int \<Rightarrow> color
    \<Rightarrow> (moveobj option \<times> 'g) outcome" where
  "strategyMain e fuel r game mode depth aiColor =
     (if mode = RandomMode then keepGame game (randomPick e game r)
      else if mode = GreedyMode then keepGame game (greedyPick e game r)
      else minimaxPickMain e fuel game depth aiColor)"

text \<open>
  \<^verbatim>\<open>doFallback\<close>.  An exception leaves the handler before it has written anything: the
  state of the component is then the one before the call.
\<close>

definition doFallback :: "'g chess \<Rightarrow> nat \<Rightarrow> real \<Rightarrow> 'g pending \<Rightarrow> 'g app \<Rightarrow> 'g app outcome" where
  "doFallback e fuel r p st =
     (case strategyMain e fuel r (p_game p) (p_mode p) (p_depth p) (p_aiColor p) of
        Done (mv, g') \<Rightarrow>
          (case mv of
             Some m \<Rightarrow>
               (case move e (gameRef st) m of
                  Moved new \<Rightarrow>
                    Done (st\<lparr>gameRef := new, fenState := fen e new,
                             isThinking := False, thinkingRef := False\<rparr>)
                | RejectedNull \<Rightarrow> Done (st\<lparr>isThinking := False, thinkingRef := False\<rparr>)
                | RejectedThrow \<Rightarrow> Thrown)
           | None \<Rightarrow> Done (st\<lparr>isThinking := False, thinkingRef := False\<rparr>))
      | Thrown \<Rightarrow> Thrown
      | OutOfFuel \<Rightarrow> OutOfFuel)"

text \<open>The callback of the timer of 2500 ms.\<close>

definition onTimeout :: "'g chess \<Rightarrow> nat \<Rightarrow> real \<Rightarrow> 'g pending \<Rightarrow> 'g app \<Rightarrow> 'g app outcome" where
  "onTimeout e fuel r p st =
     (if \<not> thinkingRef st then Done st else doFallback e fuel r p st)"

text \<open>\<^verbatim>\<open>w.onmessage\<close>, the handler of a response of the worker.\<close>

definition onmessage :: "'g chess \<Rightarrow> res \<Rightarrow> 'g app \<Rightarrow> 'g app outcome" where
  "onmessage e d st =
     (if res_id d \<noteq> reqIdRef st then Done st
      else (case res_move d of
              Some m \<Rightarrow>
                (case move e (gameRef st) m of
                   Moved new \<Rightarrow>
                     Done (st\<lparr>gameRef := new, fenState := fen e new,
                              isThinking := False, thinkingRef := False\<rparr>)
                 | RejectedNull \<Rightarrow> Done (st\<lparr>isThinking := False, thinkingRef := False\<rparr>)
                 | RejectedThrow \<Rightarrow> Thrown)
            | None \<Rightarrow> Done (st\<lparr>isThinking := False, thinkingRef := False\<rparr>)))"

text \<open>\<^verbatim>\<open>w.onerror\<close>\<close>

definition onerror :: "'g app \<Rightarrow> 'g app" where
  "onerror st = st\<lparr>isThinking := False, thinkingRef := False\<rparr>"

definition requestAiMoveWithFallback :: "'g chess \<Rightarrow> 'g app \<Rightarrow> 'g app \<times> 'g effect" where
  "requestAiMoveWithFallback e st =
     (let aiColor = (if aiPlays st = White then White else Black);
          g = load e (fen e (gameRef st));
          p = \<lparr>p_game = g, p_mode = aiMode st, p_depth = depthState st, p_aiColor = aiColor\<rparr>
      in if \<not> workerRef st then (st, FallbackSoon p)
         else (let i = reqIdRef st + 1
               in (st\<lparr>reqIdRef := i\<rparr>,
                   Posted \<lparr>req_id = i, req_fen = fen e g, req_mode = aiMode st,
                           req_depth = depthState st, req_aiColor = aiColor\<rparr> p)))"

definition maybeAIMove :: "'g chess \<Rightarrow> 'g app \<Rightarrow> 'g app \<times> 'g effect" where
  "maybeAIMove e st =
     (let game = gameRef st;
          aiTurn = (if aiPlays st = White then White else Black)
      in if \<not> playVsAI st \<or> isGameOver e game \<or> turn e game \<noteq> aiTurn then (st, NoEffect)
         else if thinkingRef st then (st, NoEffect)
         else requestAiMoveWithFallback e (st\<lparr>thinkingRef := True, isThinking := True\<rparr>))"

text \<open>
  \<^verbatim>\<open>onDrop(source, target)\<close>: the new state, the effect scheduled and the boolean
  returned to the board.
\<close>

definition onDrop :: "'g chess \<Rightarrow> string \<Rightarrow> string \<Rightarrow> 'g app \<Rightarrow> (('g app \<times> 'g effect) \<times> bool) outcome" where
  "onDrop e source target st =
     (if isThinking st then Done ((st, NoEffect), False)
      else (case move e (gameRef st) \<lparr>mfrom = source, mto = target, mpromotion = Some Queen\<rparr> of
              Moved new \<Rightarrow>
                Done (maybeAIMove e (st\<lparr>gameRef := new, fenState := fen e new\<rparr>), True)
            | RejectedNull \<Rightarrow> Done ((st, NoEffect), False)
            | RejectedThrow \<Rightarrow> Thrown))"

text \<open>
  The button \<^verbatim>\<open>Mode\<close>: \<^verbatim>\<open>setPlayVsAI(v => !v)\<close>, after which the effect on
  \<^verbatim>\<open>[playVsAI, aiPlays, aiMode, depth]\<close> calls \<^verbatim>\<open>maybeAIMove\<close>.
\<close>

definition clickMode :: "'g chess \<Rightarrow> 'g app \<Rightarrow> 'g app \<times> 'g effect" where
  "clickMode e st = maybeAIMove e (st\<lparr>playVsAI := \<not> playVsAI st\<rparr>)"

section \<open>The contract of the rules engine and the reference definitions\<close>

text \<open>
  The contract the program relies on: a move taken from \<^verbatim>\<open>game.moves({ verbose: true })\<close>
  is applied when it is played in its short form, and \<^verbatim>\<open>game.undo()\<close> then gives the
  game object back as it was.
\<close>

definition engine_ok :: "'g chess \<Rightarrow> bool" where
  "engine_ok e \<longleftrightarrow>
     (\<forall>g. \<forall>m \<in> set (moves e g). \<exists>g'. move e g (toShort m) = Moved g' \<and> undo e g' = g)"


text \<open>The position that playing \<open>m\<close> leads to.\<close>

definition child :: "'g chess \<Rightarrow> 'g \<Rightarrow> vmove \<Rightarrow> 'g" where
  "child e g m =
     (case move e g (toShort m) of Moved g' \<Rightarrow> g' | RejectedNull \<Rightarrow> g | RejectedThrow \<Rightarrow> g)"

subsection \<open>Full minimax, without pruning\<close>

definition maximum :: "score list \<Rightarrow> score" where
  "maximum xs = foldr max xs NegInf"

definition minimum :: "score list \<Rightarrow> score" where
  "minimum xs = foldr min xs PosInf"

text \<open>
  The value of a position at a depth: the evaluator at depth 0, at a finished game and at
  a position without moves; otherwise the greatest value of the positions after each
  move when White is to move, the least one when Black is.
\<close>

fun fullSearch :: "'g chess \<Rightarrow> nat \<Rightarrow> 'g \<Rightarrow> score" where
  "fullSearch e 0 g = Fin (evaluate e g)"
| "fullSearch e (Suc d) g =
     (if isGameOver e g \<or> moves e g = [] then Fin (evaluate e g)
      else if turn e g = White
        then maximum (map (\<lambda>m. fullSearch e d (child e g m)) (moves e g))
        else minimum (map (\<lambda>m. fullSearch e d (child e g m)) (moves e g)))"

text \<open>
  The selection at the root: the best score starts at \<open>-\<infinity>\<close> for White and \<open>+\<infinity>\<close> for Black,
  and a move replaces the best one when its value is strictly better.
\<close>

fun selectRoot :: "bool \<Rightarrow> (vmove \<times> score) list \<Rightarrow> vmove option \<Rightarrow> score \<Rightarrow> vmove option \<times> score" where
  "selectRoot aiWhite [] best bestScore = (best, bestScore)"
| "selectRoot aiWhite ((m, v) # rest) best bestScore =
     (if (if aiWhite then v > bestScore else v < bestScore)
      then selectRoot aiWhite rest (Some m) v
      else selectRoot aiWhite rest best bestScore)"

definition fullMinimaxRoot :: "'g chess \<Rightarrow> 'g \<Rightarrow> nat \<Rightarrow> color \<Rightarrow> vmove option \<times> score" where
  "fullMinimaxRoot e g depthLimit aiColor =
     selectRoot (aiColor = White)
       (map (\<lambda>m. (m, fullSearch e (depthLimit - 1) (child e g m))) (moves e g))
       None (if aiColor = White then NegInf else PosInf)"

text \<open>
  What a search with the window \<open>(a, b)\<close> may return for a position of value \<open>v\<close>: the value
  itself inside the window, a bound on it outside.
\<close>

definition inWindow :: "score \<Rightarrow> score \<Rightarrow> score \<Rightarrow> score \<Rightarrow> bool" where
  "inWindow a b r v \<longleftrightarrow> (r \<le> a \<longrightarrow> v \<le> r) \<and> (a < r \<and> r < b \<longrightarrow> r = v) \<and> (b \<le> r \<longrightarrow> r \<le> v)"

subsection \<open>The evaluator and the greedy score in the words of the specification\<close>

fun pieceValue :: "piece_symbol \<Rightarrow> int" where
  "pieceValue Pawn = 100"
| "pieceValue Knight = 320"
| "pieceValue Bishop = 330"
| "pieceValue Rook = 500"
| "pieceValue Queen = 900"
| "pieceValue King = 0"

text \<open>The material on the occupied squares: White pieces add, Black pieces subtract.\<close>

definition material :: "piece option list list \<Rightarrow> int" where
  "material b =
     (\<Sum>sq \<leftarrow> concat b.
        case sq of None \<Rightarrow> 0
        | Some p \<Rightarrow> (if pcolor p = White then pieceValue (ptype p) else - pieceValue (ptype p)))"

definition marksMate :: "vmove \<Rightarrow> bool" where
  "marksMate m \<longleftrightarrow> CHR ''#'' \<in> set (v_san m)"

definition marksCheck :: "vmove \<Rightarrow> bool" where
  "marksCheck m \<longleftrightarrow> CHR ''+'' \<in> set (v_san m)"

text \<open>
  The one-ply score: 0, plus captured value minus moving value plus 1 for a capture, plus
  \<open>10^9\<close> for a move marked as checkmate, or else plus 5 for a move marked as check.
\<close>

definition onePlyScore :: "vmove \<Rightarrow> int" where
  "onePlyScore m =
     0 + (case v_captured m of
            Some c \<Rightarrow> pieceValue c - pieceValue (v_piece m) + 1
          | None \<Rightarrow> 0)
       + (if marksMate m then 10 ^ 9 else if marksCheck m then 5 else 0)"

section \<open>A rules engine over explicit game trees\<close>

text \<open>
  A small rules engine to run the program on: a position is a node of a tree that carries
  what the engine reports about it, with one subtree per legal move.  The game object is
  the stack of the positions played, the current one on top; \<open>move\<close> pushes, \<open>undo\<close> pops,
  an illegal move is rejected by throwing.
\<close>

record posinfo =
  i_board :: "piece option list list"
  i_turn :: color
  i_inCheck :: bool
  i_isCheckmate :: bool
  i_isDraw :: bool
  i_isStalemate :: bool
  i_isInsufficientMaterial :: bool
  i_isThreefoldRepetition :: bool
  i_isGameOver :: bool
  i_fen :: string

datatype node = Node posinfo "(vmove \<times> node) list"

fun info :: "node \<Rightarrow> posinfo" where
  "info (Node i ks) = i"

fun kids :: "node \<Rightarrow> (vmove \<times> node) list" where
  "kids (Node i ks) = ks"

text \<open>
  A move object names a legal move when the squares agree and the legal move is no
  promotion or promotes to the piece asked for.
\<close>

definition names :: "moveobj \<Rightarrow> vmove \<Rightarrow> bool" where
  "names mo m \<longleftrightarrow>
     mfrom mo = v_from m \<and> mto mo = v_to m
     \<and> (v_promotion m = None \<or> mpromotion mo = v_promotion m)"

fun lookupMove :: "moveobj \<Rightarrow> (vmove \<times> node) list \<Rightarrow> node option" where
  "lookupMove mo [] = None"
| "lookupMove mo ((m, n) # ks) = (if names mo m then Some n else lookupMove mo ks)"

fun lookupFen :: "string \<Rightarrow> node list \<Rightarrow> node list" where
  "lookupFen s [] = []"
| "lookupFen s (n # ns) = (if i_fen (info n) = s then [n] else lookupFen s ns)"

definition emptyInfo :: posinfo where
  "emptyInfo = \<lparr>i_board = [], i_turn = White, i_inCheck = False, i_isCheckmate = False,
     i_isDraw = False, i_isStalemate = False, i_isInsufficientMaterial = False,
     i_isThreefoldRepetition = False, i_isGameOver = False, i_fen = []\<rparr>"

definition top :: "node list \<Rightarrow> node" where
  "top g = (case g of [] \<Rightarrow> Node emptyInfo [] | n # h \<Rightarrow> n)"

definition treeMove :: "node list \<Rightarrow> moveobj \<Rightarrow> node list move_result" where
  "treeMove g mo =
     (case g of
        [] \<Rightarrow> RejectedThrow
      | n # h \<Rightarrow> (case lookupMove mo (kids n) of Some n' \<Rightarrow> Moved (n' # g) | None \<Rightarrow> RejectedThrow))"

definition treeUndo :: "node list \<Rightarrow> node list" where
  "treeUndo g = (case g of [] \<Rightarrow> [] | n # h \<Rightarrow> (if h = [] then g else h))"

text \<open>\<open>book\<close> lists the positions that \<open>load\<close> knows by their serialized form.\<close>

definition treeEngine :: "node list \<Rightarrow> node list chess" where
  "treeEngine book =
     \<lparr>moves = (\<lambda>g. map fst (kids (top g))),
      move = treeMove,
      undo = treeUndo,
      board = (\<lambda>g. i_board (info (top g))),
      turn = (\<lambda>g. i_turn (info (top g))),
      inCheck = (\<lambda>g. i_inCheck (info (top g))),
      isCheckmate = (\<lambda>g. i_isCheckmate (info (top g))),
      isDraw = (\<lambda>g. i_isDraw (info (top g))),
      isStalemate = (\<lambda>g. i_isStalemate (info (top g))),
      isInsufficientMaterial = (\<lambda>g. i_isInsufficientMaterial (info (top g))),
      isThreefoldRepetition = (\<lambda>g. i_isThreefoldRepetition (info (top g))),
      isGameOver = (\<lambda>g. i_isGameOver (info (top g))),
      fen = (\<lambda>g. i_fen (info (top g))),
      load = (\<lambda>s. lookupFen s book)\<rparr>"

subsection \<open>Positions to run the program on\<close>

definition pc :: "color \<Rightarrow> piece_symbol \<Rightarrow> piece option" where
  "pc c t = Some \<lparr>ptype = t, pcolor = c\<rparr>"

text \<open>A quiet move of piece \<open>t\<close>, and a capture.\<close>

definition quiet :: "piece_symbol \<Rightarrow> string \<Rightarrow> string \<Rightarrow> string \<Rightarrow> vmove" where
  "quiet t a b s = \<lparr>v_from = a, v_to = b, v_piece = t, v_captured = None,
     v_promotion = None, v_san = s\<rparr>"

definition takes :: "piece_symbol \<Rightarrow> piece_symbol \<Rightarrow> string \<Rightarrow> string \<Rightarrow> string \<Rightarrow> vmove" where
  "takes t c a b s = \<lparr>v_from = a, v_to = b, v_piece = t, v_captured = Some c,
     v_promotion = None, v_san = s\<rparr>"

text \<open>A position without moves, Black to move, in which White has \<open>k\<close> pawns.\<close>

definition leaf :: "nat \<Rightarrow> node" where
  "leaf k = Node (emptyInfo\<lparr>i_board := [replicate k (pc White Pawn)], i_turn := Black\<rparr>) []"

definition inner :: "color \<Rightarrow> (vmove \<times> node) list \<Rightarrow> node" where
  "inner c ks = Node (emptyInfo\<lparr>i_turn := c\<rparr>) ks"

text \<open>
  Three plies, White to move.  After \<open>a2a3\<close> and \<open>a7a6\<close> White reaches 5 pawns; after
  \<open>a2a3\<close> and \<open>b7b6\<close> the first reply already gives 6, so that the search leaves the
  second one aside.
\<close>

definition threePlies :: node where
  "threePlies =
     inner White
       [(quiet Pawn ''a2'' ''a3'' ''a3'',
           inner Black
             [(quiet Pawn ''a7'' ''a6'' ''a6'',
                 inner White [(quiet Pawn ''b2'' ''b3'' ''b3'', leaf 3),
                              (quiet Pawn ''c2'' ''c3'' ''c3'', leaf 5)]),
              (quiet Pawn ''b7'' ''b6'' ''b6'',
                 inner White [(quiet Pawn ''b2'' ''b3'' ''b3'', leaf 6),
                              (quiet Pawn ''c2'' ''c3'' ''c3'', leaf 9)])]),
        (quiet Pawn ''h2'' ''h3'' ''h3'',
           inner Black
             [(quiet Pawn ''a7'' ''a6'' ''a6'',
                 inner White [(quiet Pawn ''b2'' ''b3'' ''b3'', leaf 1),
                              (quiet Pawn ''c2'' ''c3'' ''c3'', leaf 2)]),
              (quiet Pawn ''b7'' ''b6'' ''b6'',
                 inner White [(quiet Pawn ''b2'' ''b3'' ''b3'', leaf 0),
                              (quiet Pawn ''c2'' ''c3'' ''c3'', leaf 1)])])]"

text \<open>
  Black to move and in check, with two legal moves; White has a queen and the king,
  Black a rook and a pawn.
\<close>

definition checkedPosition :: node where
  "checkedPosition =
     Node (emptyInfo\<lparr>i_board := [[pc White Queen, None, pc Black Rook],
                                  [pc Black Pawn, pc White King]],
                      i_turn := Black, i_inCheck := True\<rparr>)
       [(quiet King ''e8'' ''d8'' ''Kd8'', leaf 0), (quiet King ''e8'' ''f8'' ''Kf8'', leaf 0)]"

text \<open>
  White is checkmated; a stalemate; and a checkmate of Black that the engine also
  reports as drawn (the fifty-move counter has run out with the mating move).
\<close>

definition matedPosition :: node where
  "matedPosition =
     Node (emptyInfo\<lparr>i_board := [[pc White King, pc Black Queen, pc Black King]],
                      i_turn := White, i_inCheck := True, i_isCheckmate := True,
                      i_isGameOver := True\<rparr>) []"

definition stalematePosition :: node where
  "stalematePosition =
     Node (emptyInfo\<lparr>i_board := [[pc White King, pc Black Queen, pc Black King]],
                      i_turn := White, i_isDraw := True, i_isStalemate := True,
                      i_isGameOver := True\<rparr>) []"

definition mateAndDraw :: node where
  "mateAndDraw =
     Node (emptyInfo\<lparr>i_board := [[pc White King, pc White Queen, pc Black King]],
                      i_turn := Black, i_inCheck := True, i_isCheckmate := True,
                      i_isDraw := True, i_isGameOver := True\<rparr>) []"

text \<open>Bare kings: the game is over by insufficient material, and the king can still move.\<close>

definition bareKings :: node where
  "bareKings =
     Node (emptyInfo\<lparr>i_board := [[pc White King, None, pc Black King]],
                      i_turn := White, i_isDraw := True, i_isInsufficientMaterial := True,
                      i_isGameOver := True\<rparr>)
       [(quiet King ''e1'' ''d1'' ''Kd1'', leaf 0)]"

text \<open>
  White to move: a quiet pawn move, and the queen can take a knight.  And the same
  with a pawn that can take a queen.
\<close>

definition queenTakesKnight :: node where
  "queenTakesKnight =
     inner White [(quiet Pawn ''a2'' ''a3'' ''a3'', leaf 0),
                  (takes Queen Knight ''d1'' ''d5'' ''Qxd5'', leaf 0)]"

definition pawnTakesQueen :: node where
  "pawnTakesQueen =
     inner White [(quiet Pawn ''a2'' ''a3'' ''a3'', leaf 0),
                  (takes Pawn Queen ''e4'' ''d5'' ''exd5'', leaf 0)]"

text \<open>A quiet move, a pawn taking a pawn, and two checks.\<close>

definition twoChecks :: node where
  "twoChecks =
     inner White [(quiet Pawn ''a2'' ''a3'' ''a3'', leaf 0),
                  (takes Pawn Pawn ''e4'' ''d5'' ''exd5'', leaf 0),
                  (quiet Knight ''g5'' ''f7'' ''Nf7+'', leaf 0),
                  (quiet Bishop ''c4'' ''f7'' ''Bf7+'', leaf 0)]"

text \<open>
  A short game: Black has two moves at \<open>A\<close>; after \<open>e7e5\<close> White plays \<open>e2e4\<close>, and the
  knight move \<open>g8f6\<close> of the first position is legal again.
\<close>

definition gameD :: node where
  "gameD = Node (emptyInfo\<lparr>i_turn := White, i_fen := ''D''\<rparr>) []"

definition gameC :: node where
  "gameC = Node (emptyInfo\<lparr>i_turn := Black, i_fen := ''C''\<rparr>)
     [(quiet Knight ''g8'' ''f6'' ''Nf6'', gameD)]"

definition gameB :: node where
  "gameB = Node (emptyInfo\<lparr>i_turn := White, i_fen := ''B''\<rparr>)
     [(quiet Pawn ''e2'' ''e4'' ''e4'', gameC)]"

definition gameA :: node where
  "gameA = Node (emptyInfo\<lparr>i_turn := Black, i_fen := ''A''\<rparr>)
     [(quiet Knight ''g8'' ''f6'' ''Nf6'', leaf 0),
      (quiet Pawn ''e7'' ''e5'' ''e5'', gameB)]"

definition shortGame :: "node list chess" where
  "shortGame = treeEngine [gameA, gameB, gameC, gameD]"

text \<open>The component at \<open>A\<close>: the AI plays Black at random, and a worker is there.\<close>

definition atA :: "node list app" where
  "atA = \<lparr>gameRef = [gameA], thinkingRef = False, fenState = ''A'', playVsAI = True,
     aiPlays = Black, aiMode = RandomMode, depthState = 3, isThinking = False,
     workerRef = True, reqIdRef = 0\<rparr>"

text \<open>
  The states the component goes through below: waiting for the worker with request 1;
  after the fallback has played \<open>e7e5\<close>; after the button \<open>Mode\<close>; after White's
  \<open>e2e4\<close>; and after the response of the worker to request 1 has been handled.
\<close>

definition knightMove :: moveobj where
  "knightMove = \<lparr>mfrom = ''g8'', mto = ''f6'', mpromotion = None\<rparr>"

definition request1 :: req where
  "request1 = \<lparr>req_id = 1, req_fen = ''A'', req_mode = RandomMode, req_depth = 3,
     req_aiColor = Black\<rparr>"

definition pending1 :: "node list pending" where
  "pending1 = \<lparr>p_game = [gameA], p_mode = RandomMode, p_depth = 3, p_aiColor = Black\<rparr>"

definition waiting :: "node list app" where
  "waiting = atA\<lparr>thinkingRef := True, isThinking := True, reqIdRef := 1\<rparr>"

definition afterFallback :: "node list app" where
  "afterFallback = waiting\<lparr>gameRef := [gameB, gameA], fenState := ''B'',
     isThinking := False, thinkingRef := False\<rparr>"

definition humanVsHuman :: "node list app" where
  "humanVsHuman = afterFallback\<lparr>playVsAI := False\<rparr>"

definition afterWhite :: "node list app" where
  "afterWhite = humanVsHuman\<lparr>gameRef := [gameC, gameB, gameA], fenState := ''C''\<rparr>"

definition afterLateResponse :: "node list app" where
  "afterLateResponse = afterWhite\<lparr>gameRef := [gameD, gameC, gameB, gameA], fenState := ''D''\<rparr>"

section \<open>The order of the scores, and the worker against the main thread\<close>

text \<open>
  The worker repeats the code of the main thread: each of its functions is equal to its
  counterpart, so that what is proved of one holds of the other.
\<close>

lemma less_score_simps [simp]:
  "NegInf < Fin a" "NegInf < PosInf" "Fin a < PosInf"
  "(Fin a < Fin b) = (a < b)"
  "\<not> x < NegInf" "\<not> PosInf < x"
  by (cases x; auto simp: less_score_def)+

lemma le_score_top_bot [simp]: "x \<le> PosInf" "(x \<le> NegInf) = (x = NegInf)" "(PosInf \<le> x) = (x = PosInf)"
  by (cases x; simp)+

lemma valOr0_w_eq: "valOr0_w = valOr0"
  by (rule ext, case_tac x) (simp_all add: valOr0_w_def valOr0_def)

lemma valOr0_pieceValue: "valOr0 x = pieceValue x"
  by (cases x) (simp_all add: valOr0_def)

lemma toShort_w_eq: "toShort_w = toShort"
  by (rule ext) (simp add: toShort_w_def toShort_def)

lemma evalRow_w_eq: "evalRow_w row s = evalRow row s"
  by (induction row s rule: evalRow.induct) (simp_all add: valOr0_w_eq)

lemma evalBoard_w_eq: "evalBoard_w b s = evalBoard b s"
  by (induction b arbitrary: s) (simp_all add: evalRow_w_eq)

lemma evaluate_w_eq: "evaluate_w = evaluate"
  by (intro ext) (simp add: evaluate_w_def evaluate_def evalBoard_w_eq Let_def)

lemma randomElement_w_eq: "randomElement_w = randomElement"
  by (intro ext) (simp add: randomElement_w_def randomElement_def toShort_w_eq Let_def)

lemma randomPicker_eq: "randomPicker = randomPick"
  by (intro ext) (simp add: randomPicker_def randomPick_def randomElement_w_eq Let_def)

lemma greedyScore_w_eq: "greedyScore_w = greedyScore"
  by (intro ext) (simp add: greedyScore_w_def greedyScore_def valOr0_w_eq Let_def split: option.splits)

lemma greedyLoop_w_eq: "greedyLoop_w ms b s = greedyLoop ms b s"
  by (induction ms arbitrary: b s) (simp_all add: greedyScore_w_eq Let_def)

lemma greedyPicker_eq: "greedyPicker = greedyPick"
  by (intro ext) (simp add: greedyPicker_def greedyPick_def greedyLoop_w_eq randomElement_w_eq toShort_w_eq Let_def split: option.splits)

lemma maxLoop_w_eq: "maxLoop_w e rec mv v a b g = maxLoop e rec mv v a b g"
  by (induction mv arbitrary: v a b g) (auto simp: toShort_w_eq Let_def split: outcome.splits)

lemma minLoop_w_eq: "minLoop_w e rec mv v a b g = minLoop e rec mv v a b g"
  by (induction mv arbitrary: v a b g) (auto simp: toShort_w_eq Let_def split: outcome.splits)

lemma search_w_eq: "search_w e fuel d a b g = search e fuel d a b g"
proof (induction fuel arbitrary: d a b g)
  case 0 show ?case by simp
next
  case (Suc fuel)
  have "search_w e fuel (d - 1) = search e fuel (d - 1)"
    by (intro ext) (rule Suc.IH)
  then show ?case
    by (simp add: evaluate_w_eq maxLoop_w_eq minLoop_w_eq Let_def)
qed

lemma rootLoop_w_eq: "rootLoop_w e rec w ms b s g = rootLoop e rec w ms b s g"
  by (induction ms arbitrary: b s g) (auto simp: toShort_w_eq Let_def split: outcome.splits)

lemma minimaxRoot_eq: "minimaxRoot = minimaxRootMain"
proof (intro ext)
  fix e :: "'a chess" and fuel g d c
  have "search_w e fuel (d - 1) = search e fuel (d - 1)"
    by (intro ext) (rule search_w_eq)
  then show "minimaxRoot e fuel g d c = minimaxRootMain e fuel g d c"
    by (simp add: minimaxRoot_def minimaxRootMain_def rootLoop_w_eq Let_def)
qed

lemma minimaxPick_eq: "minimaxPick = minimaxPickMain"
  by (intro ext) (simp add: minimaxPick_def minimaxPickMain_def minimaxRoot_eq toShort_w_eq split: outcome.splits option.splits)

lemma strategyWorker_eq: "strategyWorker = strategyMain"
  by (intro ext) (simp add: strategyWorker_def strategyMain_def minimaxPick_eq greedyPicker_eq randomPicker_eq)

section \<open>Alpha-beta pruning against full minimax\<close>

text \<open>
  The loops of \<^verbatim>\<open>search\<close> return, with the game object they started from, a score that is
  the value of the position inside the window and a bound on it outside (\<open>inWindow\<close>), provided
  the recursive call does so one level below.  With the window from \<open>-\<infinity>\<close> to \<open>+\<infinity>\<close> of the
  root the score is the value.
\<close>

lemma maximum_simps [simp]: "maximum [] = NegInf" "maximum (x # xs) = max x (maximum xs)"
  by (simp_all add: maximum_def)

lemma minimum_simps [simp]: "minimum [] = PosInf" "minimum (x # xs) = min x (minimum xs)"
  by (simp_all add: minimum_def)

lemma doMove_legal:
  assumes "engine_ok e" "m \<in> set (moves e g)"
  shows "doMove e g (toShort m) = Done (child e g m)" "undo e (child e g m) = g"
proof -
  from assms obtain g' where "move e g (toShort m) = Moved g'" "undo e g' = g"
    unfolding engine_ok_def by blast
  then show "doMove e g (toShort m) = Done (child e g m)" "undo e (child e g m) = g"
    by (simp_all add: doMove_def child_def)
qed

lemma max_step_cut:
  fixes a b c v W :: score
  assumes "a < b" "val \<le> a" "inWindow a b c v" "b \<le> max a (max val c)"
  shows "val \<le> max val c" "b \<le> max val c" "max val c \<le> max v W"
  using assms by (auto simp: inWindow_def max_def split: if_splits)

lemma max_step_go:
  fixes a b c v W r :: score
  assumes "a < b" "val \<le> a" "inWindow a b c v" "\<not> b \<le> max a (max val c)"
    and "max val c \<le> r"
    and "r \<le> max a (max val c) \<longrightarrow> W \<le> r"
    and "max a (max val c) < r \<and> r < b \<longrightarrow> r = W"
    and "b \<le> r \<longrightarrow> r \<le> W"
  shows "val \<le> r" "r \<le> a \<longrightarrow> max v W \<le> r" "a < r \<and> r < b \<longrightarrow> r = max v W" "b \<le> r \<longrightarrow> r \<le> max v W"
  using assms by (auto simp: inWindow_def max_def split: if_splits)

lemma min_step_cut:
  fixes a b c v W :: score
  assumes "a < b" "b \<le> val" "inWindow a b c v" "min b (min val c) \<le> a"
  shows "min val c \<le> val" "min val c \<le> a" "min v W \<le> min val c"
  using assms by (auto simp: inWindow_def min_def split: if_splits)

lemma min_step_go:
  fixes a b c v W r :: score
  assumes "a < b" "b \<le> val" "inWindow a b c v" "\<not> min b (min val c) \<le> a"
    and "r \<le> min val c"
    and "min b (min val c) \<le> r \<longrightarrow> r \<le> W"
    and "a < r \<and> r < min b (min val c) \<longrightarrow> r = W"
    and "r \<le> a \<longrightarrow> W \<le> r"
  shows "r \<le> val" "b \<le> r \<longrightarrow> r \<le> min v W" "a < r \<and> r < b \<longrightarrow> r = min v W" "r \<le> a \<longrightarrow> min v W \<le> r"
  using assms by (auto simp: inWindow_def min_def split: if_splits)

lemma maxLoop_window:
  assumes ok: "engine_ok e"
    and sub: "set mv \<subseteq> set (moves e g)"
    and rec: "\<And>a b m. m \<in> set mv \<Longrightarrow> a < b \<Longrightarrow>
                \<exists>c. rec a b (child e g m) = Done (c, child e g m) \<and> inWindow a b c (V (child e g m))"
    and ab: "alpha < beta" and va: "val \<le> alpha"
  shows "\<exists>r. maxLoop e rec mv val alpha beta g = Done (r, g) \<and> val \<le> r
            \<and> (r \<le> alpha \<longrightarrow> maximum (map (\<lambda>m. V (child e g m)) mv) \<le> r)
            \<and> (alpha < r \<and> r < beta \<longrightarrow> r = maximum (map (\<lambda>m. V (child e g m)) mv))
            \<and> (beta \<le> r \<longrightarrow> r \<le> maximum (map (\<lambda>m. V (child e g m)) mv))"
  using sub rec ab va
proof (induction mv arbitrary: val alpha)
  case Nil
  then show ?case by auto
next
  case (Cons m mv)
  let ?k = "child e g m"
  let ?W = "maximum (map (\<lambda>m. V (child e g m)) mv)"
  have legal: "m \<in> set (moves e g)" using Cons.prems(1) by simp
  note mv = doMove_legal[OF ok legal]
  from Cons.prems(2)[of m alpha beta] Cons.prems(3)
  obtain c where c: "rec alpha beta ?k = Done (c, ?k)" and w: "inWindow alpha beta c (V ?k)"
    by auto
  show ?case
  proof (cases "beta \<le> max alpha (max val c)")
    case True
    have eq: "maxLoop e rec (m # mv) val alpha beta g = Done (max val c, g)"
      using True by (simp add: mv c Let_def)
    note cut = max_step_cut[OF Cons.prems(3) Cons.prems(4) w True]
    have n1: "\<not> max val c \<le> alpha"
      using cut(2) Cons.prems(3) by (meson leD le_less_trans)
    have n2: "\<not> max val c < beta"
      using cut(2) by (meson leD)
    have n3: "max val c \<le> maximum (map (\<lambda>m. V (child e g m)) (m # mv))"
      using cut(3)[of ?W] by simp
    show ?thesis unfolding eq using cut(1) n1 n2 n3 by blast
  next
    case False
    have eq: "maxLoop e rec (m # mv) val alpha beta g
              = maxLoop e rec mv (max val c) (max alpha (max val c)) beta g"
      using False by (simp add: mv c Let_def)
    have "\<exists>r. maxLoop e rec mv (max val c) (max alpha (max val c)) beta g = Done (r, g)
            \<and> max val c \<le> r
            \<and> (r \<le> max alpha (max val c) \<longrightarrow> ?W \<le> r)
            \<and> (max alpha (max val c) < r \<and> r < beta \<longrightarrow> r = ?W)
            \<and> (beta \<le> r \<longrightarrow> r \<le> ?W)"
    proof (rule Cons.IH)
      show "set mv \<subseteq> set (moves e g)" using Cons.prems(1) by simp
      show "max alpha (max val c) < beta" using False by (simp only: not_le)
      show "max val c \<le> max alpha (max val c)" by (rule max.cobounded2)
      show "\<exists>c. rec a b (child e g m) = Done (c, child e g m) \<and> inWindow a b c (V (child e g m))"
        if "m \<in> set mv" "a < b" for a b m
        using Cons.prems(2)[of m a b] that by simp
    qed
    then obtain r where r: "maxLoop e rec mv (max val c) (max alpha (max val c)) beta g = Done (r, g)"
      and r1: "max val c \<le> r"
      and r2: "r \<le> max alpha (max val c) \<longrightarrow> ?W \<le> r"
      and r3: "max alpha (max val c) < r \<and> r < beta \<longrightarrow> r = ?W"
      and r4: "beta \<le> r \<longrightarrow> r \<le> ?W"
      by blast
    have W: "maximum (map (\<lambda>m. V (child e g m)) (m # mv)) = max (V ?k) ?W" by simp
    from max_step_go[OF Cons.prems(3) Cons.prems(4) w False r1 r2 r3 r4]
    show ?thesis unfolding eq r W by blast
  qed
qed

lemma minLoop_window:
  assumes ok: "engine_ok e"
    and sub: "set mv \<subseteq> set (moves e g)"
    and rec: "\<And>a b m. m \<in> set mv \<Longrightarrow> a < b \<Longrightarrow>
                \<exists>c. rec a b (child e g m) = Done (c, child e g m) \<and> inWindow a b c (V (child e g m))"
    and ab: "alpha < beta" and va: "beta \<le> val"
  shows "\<exists>r. minLoop e rec mv val alpha beta g = Done (r, g) \<and> r \<le> val
            \<and> (beta \<le> r \<longrightarrow> r \<le> minimum (map (\<lambda>m. V (child e g m)) mv))
            \<and> (alpha < r \<and> r < beta \<longrightarrow> r = minimum (map (\<lambda>m. V (child e g m)) mv))
            \<and> (r \<le> alpha \<longrightarrow> minimum (map (\<lambda>m. V (child e g m)) mv) \<le> r)"
  using sub rec ab va
proof (induction mv arbitrary: val beta)
  case Nil
  then show ?case by auto
next
  case (Cons m mv)
  let ?k = "child e g m"
  let ?W = "minimum (map (\<lambda>m. V (child e g m)) mv)"
  have legal: "m \<in> set (moves e g)" using Cons.prems(1) by simp
  note mv = doMove_legal[OF ok legal]
  from Cons.prems(2)[of m alpha beta] Cons.prems(3)
  obtain c where c: "rec alpha beta ?k = Done (c, ?k)" and w: "inWindow alpha beta c (V ?k)"
    by auto
  show ?case
  proof (cases "min beta (min val c) \<le> alpha")
    case True
    have eq: "minLoop e rec (m # mv) val alpha beta g = Done (min val c, g)"
      using True by (simp add: mv c Let_def)
    note cut = min_step_cut[OF Cons.prems(3) Cons.prems(4) w True]
    have n1: "\<not> beta \<le> min val c"
      using cut(2) Cons.prems(3) by (meson leD le_less_trans)
    have n2: "\<not> alpha < min val c"
      using cut(2) by (meson leD)
    have n3: "minimum (map (\<lambda>m. V (child e g m)) (m # mv)) \<le> min val c"
      using cut(3)[of ?W] by simp
    show ?thesis unfolding eq using cut(1) n1 n2 n3 by blast
  next
    case False
    have eq: "minLoop e rec (m # mv) val alpha beta g
              = minLoop e rec mv (min val c) alpha (min beta (min val c)) g"
      using False by (simp add: mv c Let_def)
    have "\<exists>r. minLoop e rec mv (min val c) alpha (min beta (min val c)) g = Done (r, g)
            \<and> r \<le> min val c
            \<and> (min beta (min val c) \<le> r \<longrightarrow> r \<le> ?W)
            \<and> (alpha < r \<and> r < min beta (min val c) \<longrightarrow> r = ?W)
            \<and> (r \<le> alpha \<longrightarrow> ?W \<le> r)"
    proof (rule Cons.IH)
      show "set mv \<subseteq> set (moves e g)" using Cons.prems(1) by simp
      show "alpha < min beta (min val c)" using False by (simp only: not_le)
      show "min beta (min val c) \<le> min val c" by (rule min.cobounded2)
      show "\<exists>c. rec a b (child e g m) = Done (c, child e g m) \<and> inWindow a b c (V (child e g m))"
        if "m \<in> set mv" "a < b" for a b m
        using Cons.prems(2)[of m a b] that by simp
    qed
    then obtain r where r: "minLoop e rec mv (min val c) alpha (min beta (min val c)) g = Done (r, g)"
      and r1: "r \<le> min val c"
      and r2: "min beta (min val c) \<le> r \<longrightarrow> r \<le> ?W"
      and r3: "alpha < r \<and> r < min beta (min val c) \<longrightarrow> r = ?W"
      and r4: "r \<le> alpha \<longrightarrow> ?W \<le> r"
      by blast
    have W: "minimum (map (\<lambda>m. V (child e g m)) (m # mv)) = min (V ?k) ?W" by simp
    from min_step_go[OF Cons.prems(3) Cons.prems(4) w False r1 r2 r3 r4]
    show ?thesis unfolding eq r W by blast
  qed
qed

lemma inWindow_refl: "inWindow a b v v"
  by (simp add: inWindow_def)

lemma inWindow_full: "inWindow NegInf PosInf r v \<Longrightarrow> r = v"
  by (cases r) (auto simp: inWindow_def)

lemma search_window:
  assumes ok: "engine_ok e"
  shows "d < fuel \<Longrightarrow> a < b \<Longrightarrow>
         \<exists>r. search e fuel (int d) a b g = Done (r, g) \<and> inWindow a b r (fullSearch e d g)"
proof (induction d arbitrary: fuel a b g)
  case 0
  then obtain f where f: "fuel = Suc f" by (cases fuel) auto
  show ?case by (simp add: f inWindow_refl)
next
  case (Suc d)
  then obtain f where f: "fuel = Suc f" and df: "d < f" by (cases fuel) auto
  have dep: "int (Suc d) - 1 = int d" by simp
  show ?case
  proof (cases "isGameOver e g \<or> moves e g = []")
    case True
    then show ?thesis by (auto simp: f inWindow_refl)
  next
    case False
    have rec: "\<exists>c. search e f (int d) a' b' (child e g m) = Done (c, child e g m)
                  \<and> inWindow a' b' c (fullSearch e d (child e g m))"
      if "a' < b'" for a' b' m
      using Suc.IH[OF df that] .
    show ?thesis
    proof (cases "turn e g = White")
      case True
      have eq: "search e fuel (int (Suc d)) a b g
                = maxLoop e (search e f (int d)) (moves e g) NegInf a b g"
        unfolding f search.simps dep using False True by (simp add: Let_def)
      have eqv: "fullSearch e (Suc d) g
                = maximum (map (\<lambda>m. fullSearch e d (child e g m)) (moves e g))"
        using False True by simp
      from maxLoop_window[OF ok subset_refl, where rec = "search e f (int d)" and V = "fullSearch e d"
          and alpha = a and beta = b and val = NegInf and g = g]
        rec Suc.prems(2)
      obtain r where "maxLoop e (search e f (int d)) (moves e g) NegInf a b g = Done (r, g)"
        and "r \<le> a \<longrightarrow> maximum (map (\<lambda>m. fullSearch e d (child e g m)) (moves e g)) \<le> r"
        and "a < r \<and> r < b \<longrightarrow> r = maximum (map (\<lambda>m. fullSearch e d (child e g m)) (moves e g))"
        and "b \<le> r \<longrightarrow> r \<le> maximum (map (\<lambda>m. fullSearch e d (child e g m)) (moves e g))"
        by auto
      then show ?thesis unfolding eq eqv inWindow_def by blast
    next
      case Black: False
      have eq: "search e fuel (int (Suc d)) a b g
                = minLoop e (search e f (int d)) (moves e g) PosInf a b g"
        unfolding f search.simps dep using False Black by (simp add: Let_def)
      have eqv: "fullSearch e (Suc d) g
                = minimum (map (\<lambda>m. fullSearch e d (child e g m)) (moves e g))"
        using False Black by simp
      from minLoop_window[OF ok subset_refl, where rec = "search e f (int d)" and V = "fullSearch e d"
          and alpha = a and beta = b and val = PosInf and g = g]
        rec Suc.prems(2)
      obtain r where "minLoop e (search e f (int d)) (moves e g) PosInf a b g = Done (r, g)"
        and "b \<le> r \<longrightarrow> r \<le> minimum (map (\<lambda>m. fullSearch e d (child e g m)) (moves e g))"
        and "a < r \<and> r < b \<longrightarrow> r = minimum (map (\<lambda>m. fullSearch e d (child e g m)) (moves e g))"
        and "r \<le> a \<longrightarrow> minimum (map (\<lambda>m. fullSearch e d (child e g m)) (moves e g)) \<le> r"
        by auto
      then show ?thesis unfolding eq eqv inWindow_def by blast
    qed
  qed
qed

lemma search_full:
  assumes "engine_ok e" "d < fuel"
  shows "search e fuel (int d) NegInf PosInf g = Done (fullSearch e d g, g)"
proof -
  from search_window[OF assms, of NegInf PosInf g]
  obtain r where "search e fuel (int d) NegInf PosInf g = Done (r, g)"
    and "inWindow NegInf PosInf r (fullSearch e d g)" by auto
  then show ?thesis by (simp add: inWindow_full)
qed

lemma rootLoop_select:
  assumes ok: "engine_ok e"
    and rec: "\<And>m. m \<in> set (moves e g) \<Longrightarrow> rec NegInf PosInf (child e g m) = Done (V (child e g m), child e g m)"
  shows "set ms \<subseteq> set (moves e g) \<Longrightarrow>
         rootLoop e rec w ms best bs g
         = Done (selectRoot w (map (\<lambda>m. (m, V (child e g m))) ms) best bs, g)"
proof (induction ms arbitrary: best bs)
  case Nil
  show ?case by simp
next
  case (Cons m ms)
  then have legal: "m \<in> set (moves e g)" and sub: "set ms \<subseteq> set (moves e g)" by auto
  note mv = doMove_legal[OF ok legal]
  show ?case
    by (simp add: mv rec[OF legal] Cons.IH[OF sub] Let_def)
qed

lemma minimaxRootMain_full:
  assumes ok: "engine_ok e" and d1: "1 \<le> depthLimit" and fu: "depthLimit \<le> int fuel"
  shows "minimaxRootMain e fuel g depthLimit aiColor
         = Done (fullMinimaxRoot e g (nat depthLimit) aiColor, g)"
proof -
  define d where "d = nat (depthLimit - 1)"
  have d: "depthLimit - 1 = int d" using d1 by (simp add: d_def)
  have dn: "nat depthLimit - 1 = d" using d1 unfolding d_def by linarith
  have df: "d < fuel" using d1 fu unfolding d_def by linarith
  have rec: "search e fuel (int d) NegInf PosInf (child e g m)
             = Done (fullSearch e d (child e g m), child e g m)" for m
    by (rule search_full[OF ok df])
  show ?thesis
    unfolding minimaxRootMain_def fullMinimaxRoot_def d dn Let_def
    by (rule rootLoop_select[where V = "fullSearch e d" and rec = "search e fuel (int d)",
          OF ok rec subset_refl])
qed

lemma minimaxPickMain_full:
  assumes ok: "engine_ok e" and d1: "1 \<le> depthLimit" and fu: "depthLimit \<le> int fuel"
  shows "minimaxPickMain e fuel g depthLimit aiColor
         = Done (map_option toShort (fst (fullMinimaxRoot e g (nat depthLimit) aiColor)), g)"
proof (cases "moves e g = []")
  case True
  then show ?thesis
    by (simp add: minimaxPickMain_def fullMinimaxRoot_def)
next
  case False
  then show ?thesis
    by (simp add: minimaxPickMain_def minimaxRootMain_full[OF assms] split: prod.splits option.splits)
qed

section \<open>The rules engine over game trees keeps the contract\<close>

lemma tree_sel [simp]:
  "moves (treeEngine b) g = map fst (kids (top g))"
  "move (treeEngine b) = treeMove"
  "undo (treeEngine b) = treeUndo"
  "board (treeEngine b) g = i_board (info (top g))"
  "turn (treeEngine b) g = i_turn (info (top g))"
  "inCheck (treeEngine b) g = i_inCheck (info (top g))"
  "isCheckmate (treeEngine b) g = i_isCheckmate (info (top g))"
  "isDraw (treeEngine b) g = i_isDraw (info (top g))"
  "isStalemate (treeEngine b) g = i_isStalemate (info (top g))"
  "isInsufficientMaterial (treeEngine b) g = i_isInsufficientMaterial (info (top g))"
  "isThreefoldRepetition (treeEngine b) g = i_isThreefoldRepetition (info (top g))"
  "isGameOver (treeEngine b) g = i_isGameOver (info (top g))"
  "fen (treeEngine b) g = i_fen (info (top g))"
  "load (treeEngine b) s = lookupFen s b"
  by (simp_all add: treeEngine_def)

lemma top_Cons [simp]: "top (n # h) = n"
  by (simp add: top_def)

lemma names_toShort: "names (toShort m) m"
  by (simp add: names_def toShort_def split: option.splits)

lemma lookupMove_legal: "m \<in> fst ` set ks \<Longrightarrow> \<exists>n. lookupMove (toShort m) ks = Some n"
  by (induction ks) (force simp: names_toShort)+

lemma treeEngine_ok: "engine_ok (treeEngine b)"
  unfolding engine_ok_def
proof (intro allI ballI)
  fix g :: "node list" and m
  assume m: "m \<in> set (moves (treeEngine b) g)"
  show "\<exists>g'. move (treeEngine b) g (toShort m) = Moved g' \<and> undo (treeEngine b) g' = g"
  proof (cases g)
    case Nil
    with m show ?thesis by (simp add: top_def)
  next
    case (Cons n h)
    with m obtain n' where "lookupMove (toShort m) (kids n) = Some n'"
      using lookupMove_legal[of m "kids n"] by auto
    then show ?thesis
      by (simp add: Cons treeMove_def treeUndo_def)
  qed
qed


section \<open>The evaluator and the greedy strategy\<close>

lemma evalRow_sum:
  "evalRow row s = s + (\<Sum>sq \<leftarrow> row. case sq of None \<Rightarrow> 0
       | Some p \<Rightarrow> (if pcolor p = White then pieceValue (ptype p) else - pieceValue (ptype p)))"
  by (induction row s rule: evalRow.induct) (simp_all add: valOr0_pieceValue)

lemma evalBoard_material: "evalBoard b s = s + material b"
  by (induction b arbitrary: s) (simp_all add: material_def evalRow_sum)

lemma evaluate_mate:
  "isCheckmate e g \<Longrightarrow> evaluate e g = (if turn e g = White then - (10 ^ 9) else 10 ^ 9)"
  by (simp add: evaluate_def Let_def)

lemma evaluate_draw:
  "\<not> isCheckmate e g \<Longrightarrow> isDraw e g \<or> isStalemate e g \<Longrightarrow> evaluate e g = 0"
  by (auto simp: evaluate_def Let_def)

lemma evaluate_ordinary:
  assumes "\<not> isCheckmate e g" "\<not> isDraw e g" "\<not> isStalemate e g"
    "\<not> isInsufficientMaterial e g" "\<not> isThreefoldRepetition e g"
  shows "evaluate e g = material (board e g)
       + (if turn e g = White then min (int (length (moves e g))) 30
          else - min (int (length (moves e g))) 30)
       + (if inCheck e g then (if turn e g = White then - 15 else 15) else 0)"
  using assms by (simp add: evaluate_def Let_def evalBoard_material)

lemma greedyScore_onePly: "greedyScore m = onePlyScore m"
  by (simp add: greedyScore_def onePlyScore_def marksMate_def marksCheck_def Let_def
      valOr0_pieceValue split: option.splits)

lemma pieceValue_range: "0 \<le> pieceValue p" "pieceValue p \<le> 900"
  by (cases p; simp)+

lemma onePlyScore_lower: "- (10 ^ 15) < onePlyScore m"
proof -
  have "- 899 \<le> (case v_captured m of Some c \<Rightarrow> pieceValue c - pieceValue (v_piece m) + 1 | None \<Rightarrow> 0)"
    using pieceValue_range(1)[of "the (v_captured m)"] pieceValue_range(2)[of "v_piece m"]
    by (cases "v_captured m") auto
  then show ?thesis by (simp add: onePlyScore_def)
qed

lemma greedyLoop_first_max:
  "((\<forall>m \<in> set ms. greedyScore m \<le> bs) \<longrightarrow> greedyLoop ms best bs = (best, bs))
   \<and> ((\<exists>m \<in> set ms. bs < greedyScore m) \<longrightarrow>
        (\<exists>i < length ms. greedyLoop ms best bs = (Some (ms ! i), greedyScore (ms ! i))
           \<and> bs < greedyScore (ms ! i)
           \<and> (\<forall>j < length ms. greedyScore (ms ! j) \<le> greedyScore (ms ! i))
           \<and> (\<forall>j < i. greedyScore (ms ! j) < greedyScore (ms ! i))))"
proof (induction ms arbitrary: best bs)
  case Nil
  show ?case by simp
next
  case (Cons m ms)
  let ?s = "greedyScore m"
  show ?case
  proof (cases "bs < ?s")
    case True
    have step: "greedyLoop (m # ms) best bs = greedyLoop ms (Some m) ?s"
      using True by (simp add: Let_def)
    show ?thesis
    proof (cases "\<exists>m' \<in> set ms. ?s < greedyScore m'")
      case False
      then have all: "\<forall>m' \<in> set ms. greedyScore m' \<le> ?s" by auto
      with Cons.IH[of ?s "Some m"] have "greedyLoop ms (Some m) ?s = (Some m, ?s)" by blast
      with step have r: "greedyLoop (m # ms) best bs = (Some ((m # ms) ! 0), greedyScore ((m # ms) ! 0))"
        by simp
      have le: "\<forall>j < length (m # ms). greedyScore ((m # ms) ! j) \<le> greedyScore ((m # ms) ! 0)"
        using all by (auto simp: nth_Cons split: nat.splits)
      have "0 < length (m # ms)" by simp
      with r le True show ?thesis by (intro conjI impI) (auto intro!: exI[of _ 0])
    next
      case Ex: True
      with Cons.IH[of ?s "Some m"] obtain i where i: "i < length ms"
        and r: "greedyLoop ms (Some m) ?s = (Some (ms ! i), greedyScore (ms ! i))"
        and gt: "?s < greedyScore (ms ! i)"
        and le: "\<forall>j < length ms. greedyScore (ms ! j) \<le> greedyScore (ms ! i)"
        and lt: "\<forall>j < i. greedyScore (ms ! j) < greedyScore (ms ! i)"
        by blast
      have a: "Suc i < length (m # ms)" using i by simp
      have b: "greedyLoop (m # ms) best bs = (Some ((m # ms) ! Suc i), greedyScore ((m # ms) ! Suc i))"
        using step r by simp
      have c: "bs < greedyScore ((m # ms) ! Suc i)" using True gt by simp
      have d: "\<forall>j < length (m # ms). greedyScore ((m # ms) ! j) \<le> greedyScore ((m # ms) ! Suc i)"
        using le gt by (auto simp: nth_Cons split: nat.splits)
      have e: "\<forall>j < Suc i. greedyScore ((m # ms) ! j) < greedyScore ((m # ms) ! Suc i)"
        using lt gt by (auto simp: nth_Cons split: nat.splits)
      from a b c d e True show ?thesis by (intro conjI impI) (auto intro!: exI[of _ "Suc i"])
    qed
  next
    case False
    have step: "greedyLoop (m # ms) best bs = greedyLoop ms best bs"
      using False by (simp add: Let_def)
    show ?thesis
    proof (cases "\<exists>m' \<in> set ms. bs < greedyScore m'")
      case NoEx: False
      then have all: "\<forall>m' \<in> set ms. greedyScore m' \<le> bs" by auto
      with Cons.IH[of bs best] have "greedyLoop ms best bs = (best, bs)" by blast
      with step NoEx False show ?thesis by auto
    next
      case Ex: True
      with Cons.IH[of bs best] obtain i where i: "i < length ms"
        and r: "greedyLoop ms best bs = (Some (ms ! i), greedyScore (ms ! i))"
        and gt: "bs < greedyScore (ms ! i)"
        and le: "\<forall>j < length ms. greedyScore (ms ! j) \<le> greedyScore (ms ! i)"
        and lt: "\<forall>j < i. greedyScore (ms ! j) < greedyScore (ms ! i)"
        by blast
      have a: "Suc i < length (m # ms)" using i by simp
      have b: "greedyLoop (m # ms) best bs = (Some ((m # ms) ! Suc i), greedyScore ((m # ms) ! Suc i))"
        using step r by simp
      have c: "bs < greedyScore ((m # ms) ! Suc i)" using gt by simp
      have d: "\<forall>j < length (m # ms). greedyScore ((m # ms) ! j) \<le> greedyScore ((m # ms) ! Suc i)"
        using le gt False by (auto simp: nth_Cons split: nat.splits)
      have e: "\<forall>j < Suc i. greedyScore ((m # ms) ! j) < greedyScore ((m # ms) ! Suc i)"
        using lt gt False by (auto simp: nth_Cons split: nat.splits)
      from a b c d e Ex show ?thesis by (intro conjI impI) (auto intro!: exI[of _ "Suc i"])
    qed
  qed
qed

lemma greedyPick_first_max:
  assumes "moves e g \<noteq> []"
  shows "\<exists>i < length (moves e g).
           greedyPick e g r = Done (Some (toShort (moves e g ! i)))
         \<and> (\<forall>j < length (moves e g). onePlyScore (moves e g ! j) \<le> onePlyScore (moves e g ! i))
         \<and> (\<forall>j < i. onePlyScore (moves e g ! j) < onePlyScore (moves e g ! i))"
proof -
  let ?ms = "moves e g"
  obtain m where "m \<in> set ?ms" using assms by (cases ?ms) auto
  then have "\<exists>m \<in> set ?ms. - (10 ^ 15) < greedyScore m"
    using onePlyScore_lower by (auto simp: greedyScore_onePly)
  with greedyLoop_first_max[of ?ms "- (10 ^ 15)" None]
  obtain i where i: "i < length ?ms"
    and r: "greedyLoop ?ms None (- (10 ^ 15)) = (Some (?ms ! i), greedyScore (?ms ! i))"
    and le: "\<forall>j < length ?ms. greedyScore (?ms ! j) \<le> greedyScore (?ms ! i)"
    and lt: "\<forall>j < i. greedyScore (?ms ! j) < greedyScore (?ms ! i)"
    by blast
  have "greedyPick e g r = Done (Some (toShort (?ms ! i)))"
    using assms r by (simp add: greedyPick_def Let_def)
  with i le lt show ?thesis unfolding greedyScore_onePly by blast
qed

lemma onePlyScore_small:
  assumes "\<not> marksMate m" "\<not> marksCheck m"
    and "\<And>c. v_captured m = Some c \<Longrightarrow> pieceValue c < 300"
  shows "onePlyScore m \<le> 101"
proof (cases "v_captured m")
  case None
  with assms show ?thesis by (simp add: onePlyScore_def)
next
  case (Some c)
  with assms(3) have "pieceValue c < 300" by simp
  then have "pieceValue c \<le> 100" by (cases c) simp_all
  with pieceValue_range(1)[of "v_piece m"] Some assms(1,2) show ?thesis
    by (simp add: onePlyScore_def)
qed

lemma greedyPick_capture:
  assumes m: "m \<in> set (moves e g)" and c: "v_captured m = Some c"
    and big: "300 \<le> pieceValue c" and gain: "100 < pieceValue c - pieceValue (v_piece m)"
    and only: "\<forall>m' \<in> set (moves e g). \<forall>c'. v_captured m' = Some c' \<and> 300 \<le> pieceValue c' \<longrightarrow> m' = m"
    and plain: "\<forall>m' \<in> set (moves e g). \<not> marksMate m' \<and> \<not> marksCheck m'"
  shows "greedyPick e g r = Done (Some (toShort m))"
proof -
  let ?ms = "moves e g"
  have ne: "?ms \<noteq> []" using m by auto
  from greedyPick_first_max[OF ne, of r] obtain i where i: "i < length ?ms"
    and r: "greedyPick e g r = Done (Some (toShort (?ms ! i)))"
    and le: "\<forall>j < length ?ms. onePlyScore (?ms ! j) \<le> onePlyScore (?ms ! i)"
    by blast
  from m obtain k where k: "k < length ?ms" "?ms ! k = m" by (auto simp: in_set_conv_nth)
  have sm: "101 < onePlyScore m"
    using c gain plain m by (simp add: onePlyScore_def)
  have "onePlyScore m \<le> onePlyScore (?ms ! i)" using le k by auto
  with sm have big_i: "101 < onePlyScore (?ms ! i)" by simp
  have mem: "?ms ! i \<in> set ?ms" using i by simp
  have "?ms ! i = m"
  proof (rule ccontr)
    assume neq: "?ms ! i \<noteq> m"
    have "onePlyScore (?ms ! i) \<le> 101"
    proof (rule onePlyScore_small)
      show "\<not> marksMate (?ms ! i)" "\<not> marksCheck (?ms ! i)" using plain mem by auto
      fix c' assume "v_captured (?ms ! i) = Some c'"
      with only mem neq show "pieceValue c' < 300" by force
    qed
    with big_i show False by simp
  qed
  with r show ?thesis by simp
qed

section \<open>Restored positions and legal moves\<close>

text \<open>
  Whatever the depth and the fuel, a search that returns leaves the game object as it
  found it; and the move a strategy returns is the short form of a legal move.
\<close>

lemma maxLoop_restores:
  assumes ok: "engine_ok e"
    and rec: "\<And>a b g1 c g2. rec a b g1 = Done (c, g2) \<Longrightarrow> g2 = g1"
  shows "set mv \<subseteq> set (moves e g) \<Longrightarrow> maxLoop e rec mv val alpha beta g = Done (r, g') \<Longrightarrow> g' = g"
proof (induction mv arbitrary: val alpha)
  case Nil
  then show ?case by simp
next
  case (Cons m mv)
  then have legal: "m \<in> set (moves e g)" and sub: "set mv \<subseteq> set (moves e g)" by auto
  note mv = doMove_legal[OF ok legal]
  show ?case
  proof (cases "rec alpha beta (child e g m)")
    case (Done p)
    obtain c g2 where p: "p = (c, g2)" by (cases p)
    with Done rec have g2: "g2 = child e g m" by blast
    show ?thesis
      using Cons.prems(2) Cons.IH[OF sub]
      by (simp add: mv Done p g2 Let_def split: if_splits)
  next
    case Thrown
    with Cons.prems(2) show ?thesis by (simp add: mv)
  next
    case OutOfFuel
    with Cons.prems(2) show ?thesis by (simp add: mv)
  qed
qed

lemma minLoop_restores:
  assumes ok: "engine_ok e"
    and rec: "\<And>a b g1 c g2. rec a b g1 = Done (c, g2) \<Longrightarrow> g2 = g1"
  shows "set mv \<subseteq> set (moves e g) \<Longrightarrow> minLoop e rec mv val alpha beta g = Done (r, g') \<Longrightarrow> g' = g"
proof (induction mv arbitrary: val beta)
  case Nil
  then show ?case by simp
next
  case (Cons m mv)
  then have legal: "m \<in> set (moves e g)" and sub: "set mv \<subseteq> set (moves e g)" by auto
  note mv = doMove_legal[OF ok legal]
  show ?case
  proof (cases "rec alpha beta (child e g m)")
    case (Done p)
    obtain c g2 where p: "p = (c, g2)" by (cases p)
    with Done rec have g2: "g2 = child e g m" by blast
    show ?thesis
      using Cons.prems(2) Cons.IH[OF sub]
      by (simp add: mv Done p g2 Let_def split: if_splits)
  next
    case Thrown
    with Cons.prems(2) show ?thesis by (simp add: mv)
  next
    case OutOfFuel
    with Cons.prems(2) show ?thesis by (simp add: mv)
  qed
qed

lemma search_restores:
  assumes ok: "engine_ok e"
  shows "search e fuel d a b g = Done (r, g') \<Longrightarrow> g' = g"
proof (induction fuel arbitrary: d a b g r g')
  case 0
  then show ?case by simp
next
  case (Suc fuel)
  have rec: "g2 = g1" if "search e fuel (d - 1) a' b' g1 = Done (c, g2)" for a' b' g1 c g2
    using Suc.IH[OF that] .
  show ?case
  proof (cases "d = 0 \<or> isGameOver e g \<or> moves e g = []")
    case True
    with Suc.prems show ?thesis by (auto simp: Let_def split: if_splits)
  next
    case False
    show ?thesis
    proof (cases "turn e g = White")
      case True
      with False Suc.prems
      have "maxLoop e (search e fuel (d - 1)) (moves e g) NegInf a b g = Done (r, g')"
        by (simp add: Let_def)
      from maxLoop_restores[OF ok rec subset_refl this] show ?thesis .
    next
      case Black: False
      with False Suc.prems
      have "minLoop e (search e fuel (d - 1)) (moves e g) PosInf a b g = Done (r, g')"
        by (simp add: Let_def)
      from minLoop_restores[OF ok rec subset_refl this] show ?thesis .
    qed
  qed
qed

lemma rootLoop_restores:
  assumes ok: "engine_ok e"
    and rec: "\<And>a b g1 c g2. rec a b g1 = Done (c, g2) \<Longrightarrow> g2 = g1"
  shows "set ms \<subseteq> set (moves e g) \<Longrightarrow> rootLoop e rec w ms best bs g = Done (x, g') \<Longrightarrow> g' = g"
proof (induction ms arbitrary: best bs)
  case Nil
  then show ?case by simp
next
  case (Cons m ms)
  then have legal: "m \<in> set (moves e g)" and sub: "set ms \<subseteq> set (moves e g)" by auto
  note mv = doMove_legal[OF ok legal]
  show ?case
  proof (cases "rec NegInf PosInf (child e g m)")
    case (Done p)
    obtain c g2 where p: "p = (c, g2)" by (cases p)
    with Done rec have g2: "g2 = child e g m" by blast
    show ?thesis
      using Cons.prems(2) Cons.IH[OF sub]
      by (simp add: mv Done p g2 Let_def split: if_splits)
  next
    case Thrown
    with Cons.prems(2) show ?thesis by (simp add: mv)
  next
    case OutOfFuel
    with Cons.prems(2) show ?thesis by (simp add: mv)
  qed
qed

lemma minimaxPickMain_restores:
  assumes ok: "engine_ok e" and res: "minimaxPickMain e fuel g d c = Done (mv, g')"
  shows "g' = g"
proof (cases "moves e g = []")
  case True
  with res show ?thesis by (simp add: minimaxPickMain_def)
next
  case False
  with res obtain x where x: "minimaxRootMain e fuel g d c = Done (x, g')"
    by (auto simp: minimaxPickMain_def split: outcome.splits prod.splits)
  have rec: "g2 = g1" if "search e fuel (d - 1) a' b' g1 = Done (r, g2)" for a' b' g1 r g2
    using search_restores[OF ok that] .
  show ?thesis
    by (rule rootLoop_restores[where rec = "search e fuel (d - 1)", OF ok rec subset_refl
          x[unfolded minimaxRootMain_def Let_def]])
qed

lemma keepGame_Done: "keepGame g x = Done (v, g') \<Longrightarrow> g' = g"
  by (cases x) (simp_all add: keepGame_def)

lemma strategyMain_restores:
  assumes "engine_ok e" "strategyMain e fuel r g mode d c = Done (mv, g')"
  shows "g' = g"
  using assms
  by (auto simp: strategyMain_def dest: keepGame_Done minimaxPickMain_restores split: if_splits)

lemma randomElement_Done:
  assumes "ms \<noteq> []" "0 \<le> r" "r < 1"
  shows "\<exists>i < length ms. randomElement ms r = Done (Some (toShort (ms ! i)))"
proof -
  let ?n = "length ms"
  have n: "0 < real ?n" using assms(1) by simp
  have lo: "0 \<le> \<lfloor>r * real ?n\<rfloor>" using assms(2) by simp
  have "r * real ?n < real ?n" using assms(3) n by simp
  then have hi: "\<lfloor>r * real ?n\<rfloor> < int ?n" by (simp add: floor_less_iff)
  have "nat \<lfloor>r * real ?n\<rfloor> < ?n" using lo hi by linarith
  moreover have "randomElement ms r = Done (Some (toShort (ms ! nat \<lfloor>r * real ?n\<rfloor>)))"
    using lo hi by (simp add: randomElement_def Let_def)
  ultimately show ?thesis by blast
qed

lemma randomPick_legal:
  assumes "0 \<le> r" "r < 1"
  shows "(moves e g = [] \<longrightarrow> randomPick e g r = Done None)
       \<and> (moves e g \<noteq> [] \<longrightarrow> (\<exists>m \<in> set (moves e g). randomPick e g r = Done (Some (toShort m))))"
proof (cases "moves e g = []")
  case True
  then show ?thesis by (simp add: randomPick_def)
next
  case False
  from randomElement_Done[OF False assms] obtain i where "i < length (moves e g)"
    "randomElement (moves e g) r = Done (Some (toShort (moves e g ! i)))" by blast
  with False show ?thesis by (auto simp: randomPick_def Let_def intro!: bexI[of _ "moves e g ! i"])
qed

lemma greedyPick_legal:
  "(moves e g = [] \<longrightarrow> greedyPick e g r = Done None)
   \<and> (moves e g \<noteq> [] \<longrightarrow> (\<exists>m \<in> set (moves e g). greedyPick e g r = Done (Some (toShort m))))"
proof (cases "moves e g = []")
  case True
  then show ?thesis by (simp add: greedyPick_def)
next
  case False
  from greedyPick_first_max[OF False, of r] obtain i where "i < length (moves e g)"
    "greedyPick e g r = Done (Some (toShort (moves e g ! i)))" by blast
  with False show ?thesis by (auto intro!: bexI[of _ "moves e g ! i"])
qed

lemma maximum_Fin: "xs \<noteq> [] \<Longrightarrow> \<forall>x \<in> set xs. \<exists>i. x = Fin i \<Longrightarrow> \<exists>i. maximum xs = Fin i"
proof (induction xs)
  case Nil
  then show ?case by simp
next
  case (Cons x xs)
  then obtain i where x: "x = Fin i" by auto
  show ?case
  proof (cases "xs = []")
    case True
    then show ?thesis by (simp add: x max_def)
  next
    case False
    with Cons obtain j where "maximum xs = Fin j" by auto
    then show ?thesis by (simp add: x max_def)
  qed
qed

lemma minimum_Fin: "xs \<noteq> [] \<Longrightarrow> \<forall>x \<in> set xs. \<exists>i. x = Fin i \<Longrightarrow> \<exists>i. minimum xs = Fin i"
proof (induction xs)
  case Nil
  then show ?case by simp
next
  case (Cons x xs)
  then obtain i where x: "x = Fin i" by auto
  show ?case
  proof (cases "xs = []")
    case True
    then show ?thesis by (simp add: x min_def)
  next
    case False
    with Cons obtain j where "minimum xs = Fin j" by auto
    then show ?thesis by (simp add: x min_def)
  qed
qed

lemma fullSearch_Fin: "\<exists>i. fullSearch e d g = Fin i"
proof (induction d arbitrary: g)
  case 0
  show ?case by simp
next
  case (Suc d)
  show ?case
  proof (cases "isGameOver e g \<or> moves e g = []")
    case True
    then show ?thesis by auto
  next
    case False
    then have ne: "map (\<lambda>m. fullSearch e d (child e g m)) (moves e g) \<noteq> []" by simp
    have fin: "\<forall>x \<in> set (map (\<lambda>m. fullSearch e d (child e g m)) (moves e g)). \<exists>i. x = Fin i"
      using Suc.IH by auto
    from maximum_Fin[OF ne fin] minimum_Fin[OF ne fin] False show ?thesis by auto
  qed
qed

lemma selectRoot_Some:
  "\<exists>m \<in> insert m0 (fst ` set xs). fst (selectRoot w xs (Some m0) bs) = Some m"
proof (induction xs arbitrary: m0 bs)
  case Nil
  show ?case by simp
next
  case (Cons x xs)
  obtain m v where x: "x = (m, v)" by (cases x)
  show ?case
  proof (cases "if w then bs < v else v < bs")
    case True
    then have "selectRoot w (x # xs) (Some m0) bs = selectRoot w xs (Some m) v"
      by (simp add: x)
    moreover from Cons.IH[of m v] obtain m' where "m' \<in> insert m (fst ` set xs)"
      "fst (selectRoot w xs (Some m) v) = Some m'" by blast
    ultimately show ?thesis by (auto simp: x)
  next
    case False
    then have "selectRoot w (x # xs) (Some m0) bs = selectRoot w xs (Some m0) bs"
      by (simp add: x)
    moreover from Cons.IH[of m0 bs] obtain m' where "m' \<in> insert m0 (fst ` set xs)"
      "fst (selectRoot w xs (Some m0) bs) = Some m'" by blast
    ultimately show ?thesis by (auto simp: x)
  qed
qed

lemma fullMinimaxRoot_legal:
  assumes "moves e g \<noteq> []"
  shows "\<exists>m \<in> set (moves e g). fst (fullMinimaxRoot e g d c) = Some m"
proof -
  obtain m ms where ms: "moves e g = m # ms" using assms by (cases "moves e g") auto
  obtain i where i: "fullSearch e (d - 1) (child e g m) = Fin i"
    using fullSearch_Fin[of e "d - 1" "child e g m"] by blast
  let ?rest = "map (\<lambda>m. (m, fullSearch e (d - 1) (child e g m))) ms"
  have "fullMinimaxRoot e g d c
        = selectRoot (c = White) ((m, Fin i) # ?rest) None (if c = White then NegInf else PosInf)"
    unfolding fullMinimaxRoot_def ms list.map i ..
  also have "\<dots> = selectRoot (c = White) ?rest (Some m) (Fin i)"
    by simp
  finally have "fst (fullMinimaxRoot e g d c) = fst (selectRoot (c = White) ?rest (Some m) (Fin i))"
    by simp
  moreover from selectRoot_Some[of m ?rest "c = White" "Fin i"]
  obtain m' where "m' \<in> insert m (fst ` set ?rest)"
    "fst (selectRoot (c = White) ?rest (Some m) (Fin i)) = Some m'" by blast
  moreover have "insert m (fst ` set ?rest) = set (moves e g)" by (force simp: ms)
  ultimately show ?thesis by auto
qed

lemma minimaxPickMain_legal:
  assumes ok: "engine_ok e" and d1: "1 \<le> d" and fu: "d \<le> int fuel"
  shows "(moves e g = [] \<longrightarrow> minimaxPickMain e fuel g d c = Done (None, g))
       \<and> (moves e g \<noteq> [] \<longrightarrow>
            (\<exists>m \<in> set (moves e g). minimaxPickMain e fuel g d c = Done (Some (toShort m), g)))"
proof (cases "moves e g = []")
  case True
  then show ?thesis by (simp add: minimaxPickMain_def)
next
  case False
  from fullMinimaxRoot_legal[OF False, of "nat d" c] obtain m where "m \<in> set (moves e g)"
    "fst (fullMinimaxRoot e g (nat d) c) = Some m" by blast
  with False show ?thesis
    by (auto simp: minimaxPickMain_full[OF assms])
qed

lemma strategyMain_legal:
  assumes ok: "engine_ok e" and d1: "1 \<le> d" and fu: "d \<le> int fuel" and r: "0 \<le> r" "r < 1"
  shows "(moves e g = [] \<longrightarrow> strategyMain e fuel r g mode d c = Done (None, g))
       \<and> (moves e g \<noteq> [] \<longrightarrow>
            (\<exists>m \<in> set (moves e g). strategyMain e fuel r g mode d c = Done (Some (toShort m), g)))"
proof (cases mode)
  case RandomMode
  with randomPick_legal[OF r, of e g] show ?thesis
    by (auto simp: strategyMain_def keepGame_def)
next
  case GreedyMode
  with greedyPick_legal[of e g r] show ?thesis
    by (auto simp: strategyMain_def keepGame_def)
next
  case MinimaxMode
  with minimaxPickMain_legal[OF ok d1 fu, of g c] show ?thesis
    by (auto simp: strategyMain_def)
qed

section \<open>A rejected move leaves the handler by an exception\<close>





section \<open>The claims\<close>

text \<open>
  C1. For every position, every depth limit of at least 1 and every colour of the AI, the
  move and the score that the minimax strategy with alpha-beta pruning selects
  (\<^verbatim>\<open>minimaxPickMain\<close> on the main thread, \<^verbatim>\<open>minimaxPick\<close> in the worker) are the move
  and the score of the full minimax search without pruning, at the same depth, over the
  same tree, with the same evaluator and the same order of the moves.  The rules engine
  keeps its contract, and the fuel covers the depth: the search then returns.
\<close>

theorem alphabeta_equals_full_minimax:
  assumes "engine_ok e" and "1 \<le> depthLimit" and "depthLimit \<le> int fuel"
  shows "minimaxRootMain e fuel game depthLimit aiColor
           = Done (fullMinimaxRoot e game (nat depthLimit) aiColor, game)
       \<and> minimaxRoot e fuel game depthLimit aiColor
           = Done (fullMinimaxRoot e game (nat depthLimit) aiColor, game)
       \<and> minimaxPickMain e fuel game depthLimit aiColor
           = Done (map_option toShort (fst (fullMinimaxRoot e game (nat depthLimit) aiColor)), game)
       \<and> minimaxPick e fuel game depthLimit aiColor
           = Done (map_option toShort (fst (fullMinimaxRoot e game (nat depthLimit) aiColor)), game)"
  using minimaxRootMain_full[OF assms] minimaxPickMain_full[OF assms]
  by (simp add: minimaxRoot_eq minimaxPick_eq)

theorem alphabeta_equals_full_minimax_witness:
  "engine_ok (treeEngine []) \<and> (1::int) \<le> 3 \<and> (3::int) \<le> int 3
   \<and> minimaxRootMain (treeEngine []) 3 [threePlies] 3 White
       = Done ((Some (quiet Pawn ''a2'' ''a3'' ''a3''), Fin 500), [threePlies])
   \<and> minimaxPick (treeEngine []) 3 [threePlies] 3 White
       = Done (Some \<lparr>mfrom = ''a2'', mto = ''a3'', mpromotion = None\<rparr>, [threePlies])"
proof -
  have ok: "engine_ok (treeEngine [])" by (rule treeEngine_ok)
  have d: "(1::int) \<le> 3" and f: "(3::int) \<le> int 3" by simp_all
  have full: "fullMinimaxRoot (treeEngine []) [threePlies] 3 White
              = (Some (quiet Pawn ''a2'' ''a3'' ''a3''), Fin 500)"
    by code_simp
  have short: "toShort (quiet Pawn ''a2'' ''a3'' ''a3'')
               = \<lparr>mfrom = ''a2'', mto = ''a3'', mpromotion = None\<rparr>"
    by code_simp
  from alphabeta_equals_full_minimax[OF ok d f, of "[threePlies]" White] ok d f
  show ?thesis by (simp add: full short)
qed

text \<open>
  C2, amended.  On every position on which \<^verbatim>\<open>isCheckmate\<close> holds the evaluator returns
  \<open>-10^9\<close> when White is to move and \<open>10^9\<close> when Black is; on every position on which
  \<^verbatim>\<open>isCheckmate\<close> does not hold and \<^verbatim>\<open>isDraw\<close> or \<^verbatim>\<open>isStalemate\<close> holds, it returns
  0.  The checkmate is tested first, so that a checkmate that the engine also reports as
  drawn scores as a checkmate.
\<close>

theorem evaluator_terminal_scores:
  "(isCheckmate e g \<longrightarrow>
      evaluate e g = (if turn e g = White then - (10 ^ 9) else 10 ^ 9)
    \<and> evaluate_w e g = (if turn e g = White then - (10 ^ 9) else 10 ^ 9))
   \<and> (\<not> isCheckmate e g \<and> (isDraw e g \<or> isStalemate e g) \<longrightarrow>
      evaluate e g = 0 \<and> evaluate_w e g = 0)"
  using evaluate_mate[of e g] evaluate_draw[of e g]
  by (auto simp: evaluate_w_eq)

theorem evaluator_terminal_scores_witness:
  "isCheckmate (treeEngine []) [matedPosition]
   \<and> evaluate (treeEngine []) [matedPosition] = - (10 ^ 9)
   \<and> \<not> isCheckmate (treeEngine []) [stalematePosition]
   \<and> isStalemate (treeEngine []) [stalematePosition]
   \<and> evaluate (treeEngine []) [stalematePosition] = 0"
proof -
  have m: "isCheckmate (treeEngine []) [matedPosition]"
    and t: "turn (treeEngine []) [matedPosition] = White"
    and s: "\<not> isCheckmate (treeEngine []) [stalematePosition]"
           "isStalemate (treeEngine []) [stalematePosition]"
    by code_simp+
  from evaluator_terminal_scores[of "treeEngine []" "[matedPosition]"]
       evaluator_terminal_scores[of "treeEngine []" "[stalematePosition]"] m t s
  show ?thesis by simp
qed

theorem evaluator_draw_counterexample:
  "isDraw (treeEngine []) [mateAndDraw]
   \<and> evaluate (treeEngine []) [mateAndDraw] = 10 ^ 9
   \<and> evaluate (treeEngine []) [mateAndDraw] \<noteq> 0"
  by code_simp

text \<open>
  C3. After a call of a strategy (random, greedy or minimax, on the main thread or in
  the worker) the game object, and with it its serialized form, is the one the call
  started with: every move applied during the search has been undone.  The rules engine
  keeps its contract.  With a depth limit of at least 1, fuel for it and a random draw
  in \<open>[0, 1)\<close> the call returns.
\<close>

theorem strategies_restore_position:
  assumes "engine_ok e"
  shows "(\<forall>mv game'. strategyMain e fuel r game mode depth aiColor = Done (mv, game')
            \<longrightarrow> game' = game \<and> fen e game' = fen e game)
       \<and> (\<forall>mv game'. strategyWorker e fuel r game mode depth aiColor = Done (mv, game')
            \<longrightarrow> game' = game \<and> fen e game' = fen e game)
       \<and> (1 \<le> depth \<and> depth \<le> int fuel \<and> 0 \<le> r \<and> r < 1 \<longrightarrow>
            (\<exists>mv. strategyMain e fuel r game mode depth aiColor = Done (mv, game))
          \<and> (\<exists>mv. strategyWorker e fuel r game mode depth aiColor = Done (mv, game)))"
proof -
  have a: "game' = game \<and> fen e game' = fen e game"
    if "strategyMain e fuel r game mode depth aiColor = Done (mv, game')" for mv game'
    using strategyMain_restores[OF assms that] by simp
  have b: "\<exists>mv. strategyMain e fuel r game mode depth aiColor = Done (mv, game)"
    if "1 \<le> depth" "depth \<le> int fuel" "0 \<le> r" "r < 1"
    using strategyMain_legal[OF assms that, of game mode aiColor]
    by (cases "moves e game = []") auto
  from a b show ?thesis unfolding strategyWorker_eq by blast
qed

theorem strategies_restore_position_witness:
  "engine_ok (treeEngine [])
   \<and> strategyMain (treeEngine []) 3 0 [threePlies] MinimaxMode 3 White
       = Done (Some \<lparr>mfrom = ''a2'', mto = ''a3'', mpromotion = None\<rparr>, [threePlies])
   \<and> fen (treeEngine []) [threePlies] = fen (treeEngine []) [threePlies]
   \<and> (\<exists>mv. strategyWorker (treeEngine []) 3 0 [threePlies] MinimaxMode 3 White
              = Done (mv, [threePlies]))"
proof -
  have ok: "engine_ok (treeEngine [])" by (rule treeEngine_ok)
  have run: "strategyMain (treeEngine []) 3 0 [threePlies] MinimaxMode 3 White
             = Done (Some \<lparr>mfrom = ''a2'', mto = ''a3'', mpromotion = None\<rparr>, [threePlies])"
    by code_simp
  have h: "(1::int) \<le> 3 \<and> (3::int) \<le> int 3 \<and> (0::real) \<le> 0 \<and> (0::real) < 1" by simp
  from strategies_restore_position[OF ok, of 3 0 "[threePlies]" MinimaxMode 3 White] h
  have "\<exists>mv. strategyWorker (treeEngine []) 3 0 [threePlies] MinimaxMode 3 White
              = Done (mv, [threePlies])" by blast
  with ok run show ?thesis by simp
qed

text \<open>
  C4. The claim: when the timer of a request expires and the fallback runs, a response
  of the worker to that request that arrives later carries a stale id and is discarded.
  The program: \<^verbatim>\<open>reqIdRef\<close> only changes when a request is posted, the fallback leaves
  it.  Below, the AI plays Black at random at \<open>A\<close>; request 1 is posted; the timer fires and
  the fallback plays \<open>e7e5\<close>; the user switches to two human players and plays \<open>e2e4\<close>;
  then the response to request 1 arrives with \<open>g8f6\<close>: its id is still the current one, it
  is not discarded, and the move is played on the board.
\<close>

theorem late_response_is_applied:
  "maybeAIMove shortGame atA = (waiting, Posted request1 pending1)
   \<and> workerOnmessage shortGame 0 0 request1 = Done \<lparr>res_id = 1, res_move = Some knightMove\<rparr>
   \<and> onTimeout shortGame 0 (1 / 2) pending1 waiting = Done afterFallback
   \<and> reqIdRef afterFallback = req_id request1
   \<and> clickMode shortGame afterFallback = (humanVsHuman, NoEffect)
   \<and> onDrop shortGame ''e2'' ''e4'' humanVsHuman = Done ((afterWhite, NoEffect), True)
   \<and> onmessage shortGame \<lparr>res_id = 1, res_move = Some knightMove\<rparr> afterWhite
       = Done afterLateResponse
   \<and> gameRef afterLateResponse = [gameD, gameC, gameB, gameA]
   \<and> fenState afterWhite = ''C'' \<and> fenState afterLateResponse = ''D''"
  by code_simp

theorem late_response_is_applied_witness:
  "reqIdRef afterFallback = 1
   \<and> onmessage shortGame \<lparr>res_id = 1, res_move = Some knightMove\<rparr> afterWhite
       \<noteq> Done afterWhite
   \<and> fenState afterLateResponse \<noteq> fenState afterWhite"
proof -
  have "req_id request1 = 1" by code_simp
  moreover have "afterLateResponse \<noteq> afterWhite" by code_simp
  ultimately show ?thesis using late_response_is_applied by simp
qed

text \<open>
  C5, amended.  Every strategy returns "no move" on a position without legal moves, and
  on a position with a legal move it returns the short form of one of the legal moves,
  whether or not \<^verbatim>\<open>isGameOver\<close> holds there (a game drawn by insufficient material, by
  repetition or by the fifty-move rule still has legal moves, and the strategies do not
  look at \<^verbatim>\<open>isGameOver\<close> at the root).  For the minimax strategy the depth limit is at
  least 1 and the rules engine keeps its contract.
\<close>

theorem strategies_return_legal_move:
  assumes "engine_ok e" and "1 \<le> depth" and "depth \<le> int fuel" and "0 \<le> r" and "r < 1"
  shows "(moves e game = [] \<longrightarrow>
            strategyMain e fuel r game mode depth aiColor = Done (None, game)
          \<and> strategyWorker e fuel r game mode depth aiColor = Done (None, game))
       \<and> (moves e game \<noteq> [] \<longrightarrow>
            (\<exists>m \<in> set (moves e game).
               strategyMain e fuel r game mode depth aiColor = Done (Some (toShort m), game))
          \<and> (\<exists>m \<in> set (moves e game).
               strategyWorker e fuel r game mode depth aiColor = Done (Some (toShort m), game)))"
  using strategyMain_legal[OF assms, of game mode aiColor]
  unfolding strategyWorker_eq by blast

theorem strategies_return_legal_move_witness:
  "engine_ok (treeEngine []) \<and> (1::int) \<le> 3 \<and> (3::int) \<le> int 3 \<and> (0::real) \<le> 0 \<and> (0::real) < 1
   \<and> moves (treeEngine []) [leaf 0] = []
   \<and> strategyMain (treeEngine []) 3 0 [leaf 0] GreedyMode 3 White = Done (None, [leaf 0])
   \<and> moves (treeEngine []) [threePlies] \<noteq> []
   \<and> (\<exists>m \<in> set (moves (treeEngine []) [threePlies]).
         strategyWorker (treeEngine []) 3 0 [threePlies] MinimaxMode 3 White
         = Done (Some (toShort m), [threePlies]))"
proof -
  have ok: "engine_ok (treeEngine [])" by (rule treeEngine_ok)
  have d: "(1::int) \<le> 3" and f: "(3::int) \<le> int 3" and r: "(0::real) \<le> 0" "(0::real) < 1"
    by simp_all
  have e1: "moves (treeEngine []) [leaf 0] = []" by code_simp
  have e2: "moves (treeEngine []) [threePlies] \<noteq> []" by code_simp
  from strategies_return_legal_move[OF ok d f r, of "[leaf 0]" GreedyMode White]
       strategies_return_legal_move[OF ok d f r, of "[threePlies]" MinimaxMode White]
       ok e1 e2
  show ?thesis by simp
qed

theorem game_over_counterexample:
  "isGameOver (treeEngine []) [bareKings]
   \<and> randomPick (treeEngine []) [bareKings] 0
       = Done (Some \<lparr>mfrom = ''e1'', mto = ''d1'', mpromotion = None\<rparr>)
   \<and> greedyPick (treeEngine []) [bareKings] 0
       = Done (Some \<lparr>mfrom = ''e1'', mto = ''d1'', mpromotion = None\<rparr>)
   \<and> minimaxPickMain (treeEngine []) 2 [bareKings] 2 White
       = Done (Some \<lparr>mfrom = ''e1'', mto = ''d1'', mpromotion = None\<rparr>, [bareKings])"
  by code_simp

text \<open>
  C6, amended.  For one game object, strategy, depth and colour of the AI, and for the
  same draw of \<^verbatim>\<open>Math.random()\<close> where the strategy asks for one, the worker
  (\<^verbatim>\<open>randomPicker\<close>, \<^verbatim>\<open>greedyPicker\<close>, \<^verbatim>\<open>minimaxPick\<close>) and the fallback on the main thread
  (\<^verbatim>\<open>randomPick\<close>, \<^verbatim>\<open>greedyPick\<close>, \<^verbatim>\<open>minimaxPickMain\<close>) compute the same result.
\<close>

theorem worker_equals_fallback:
  "strategyWorker e fuel r game mode depth aiColor = strategyMain e fuel r game mode depth aiColor
   \<and> randomPicker e game r = randomPick e game r
   \<and> greedyPicker e game r = greedyPick e game r
   \<and> minimaxPick e fuel game depth aiColor = minimaxPickMain e fuel game depth aiColor"
  by (simp add: strategyWorker_eq randomPicker_eq greedyPicker_eq minimaxPick_eq)

theorem worker_equals_fallback_witness:
  "strategyWorker (treeEngine []) 3 0 [threePlies] MinimaxMode 3 White
     = strategyMain (treeEngine []) 3 0 [threePlies] MinimaxMode 3 White
   \<and> randomPicker (treeEngine []) [gameA] (1 / 2) = randomPick (treeEngine []) [gameA] (1 / 2)"
  using worker_equals_fallback[of "treeEngine []" 3 0 "[threePlies]" MinimaxMode 3 White]
        worker_equals_fallback[of "treeEngine []" 3 "1 / 2" "[gameA]" RandomMode 3 Black]
  by simp

theorem random_draws_counterexample:
  "randomPicker (treeEngine []) [gameA] 0
     = Done (Some \<lparr>mfrom = ''g8'', mto = ''f6'', mpromotion = None\<rparr>)
   \<and> randomPick (treeEngine []) [gameA] (1 / 2)
     = Done (Some \<lparr>mfrom = ''e7'', mto = ''e5'', mpromotion = None\<rparr>)
   \<and> randomPicker (treeEngine []) [gameA] 0 \<noteq> randomPick (treeEngine []) [gameA] (1 / 2)"
  by code_simp

text \<open>
  C7. On every position that is neither a checkmate nor a draw of any kind (\<^verbatim>\<open>isDraw\<close>,
  \<^verbatim>\<open>isStalemate\<close>, \<^verbatim>\<open>isInsufficientMaterial\<close>, \<^verbatim>\<open>isThreefoldRepetition\<close>) the evaluator
  returns the material (pawn 100, knight 320, bishop 330, rook 500, queen 900, king 0,
  White adds, Black subtracts), plus the number of legal moves capped at 30 in favour of
  the side to move, plus \<open>-15\<close> when White is to move and in check or \<open>15\<close> when Black is.
\<close>

theorem evaluator_ordinary_score:
  assumes "\<not> isCheckmate e g" and "\<not> isDraw e g" and "\<not> isStalemate e g"
    and "\<not> isInsufficientMaterial e g" and "\<not> isThreefoldRepetition e g"
  shows "evaluate e g = material (board e g)
           + (if turn e g = White then min (int (length (moves e g))) 30
              else - min (int (length (moves e g))) 30)
           + (if inCheck e g then (if turn e g = White then - 15 else 15) else 0)
       \<and> evaluate_w e g = evaluate e g"
  using evaluate_ordinary[OF assms] by (simp add: evaluate_w_eq)

theorem evaluator_ordinary_score_witness:
  "\<not> isCheckmate (treeEngine []) [checkedPosition] \<and> \<not> isDraw (treeEngine []) [checkedPosition]
   \<and> \<not> isStalemate (treeEngine []) [checkedPosition]
   \<and> \<not> isInsufficientMaterial (treeEngine []) [checkedPosition]
   \<and> \<not> isThreefoldRepetition (treeEngine []) [checkedPosition]
   \<and> material (board (treeEngine []) [checkedPosition]) = 300
   \<and> evaluate (treeEngine []) [checkedPosition] = 300 - 2 + 15"
proof -
  have h: "\<not> isCheckmate (treeEngine []) [checkedPosition]"
      "\<not> isDraw (treeEngine []) [checkedPosition]"
      "\<not> isStalemate (treeEngine []) [checkedPosition]"
      "\<not> isInsufficientMaterial (treeEngine []) [checkedPosition]"
      "\<not> isThreefoldRepetition (treeEngine []) [checkedPosition]"
    by code_simp+
  have v: "material (board (treeEngine []) [checkedPosition]) = 300"
      "turn (treeEngine []) [checkedPosition] = Black"
      "inCheck (treeEngine []) [checkedPosition]"
      "length (moves (treeEngine []) [checkedPosition]) = 2"
    by code_simp+
  from evaluator_ordinary_score[OF h] h v show ?thesis by simp
qed

text \<open>
  C8, amended.  On every position in which exactly one legal move captures a piece of
  value 300 or more, the captured piece is worth more than the capturing piece plus 100,
  and no legal move is marked as check or checkmate, the greedy strategy returns that
  capture.  (A capture scores captured value minus moving value plus 1, a quiet move 0
  and any other move at most 101.)
\<close>

theorem greedy_returns_the_capture:
  assumes "m \<in> set (moves e g)" and "v_captured m = Some c"
    and "300 \<le> pieceValue c" and "100 < pieceValue c - pieceValue (v_piece m)"
    and "\<forall>m' \<in> set (moves e g). \<forall>c'. v_captured m' = Some c' \<and> 300 \<le> pieceValue c' \<longrightarrow> m' = m"
    and "\<forall>m' \<in> set (moves e g). \<not> marksMate m' \<and> \<not> marksCheck m'"
  shows "greedyPick e g r = Done (Some (toShort m))
       \<and> greedyPicker e g r = Done (Some (toShort m))"
  using greedyPick_capture[OF assms] by (simp add: greedyPicker_eq)

theorem greedy_returns_the_capture_witness:
  "takes Pawn Queen ''e4'' ''d5'' ''exd5'' \<in> set (moves (treeEngine []) [pawnTakesQueen])
   \<and> v_captured (takes Pawn Queen ''e4'' ''d5'' ''exd5'') = Some Queen
   \<and> 300 \<le> pieceValue Queen
   \<and> 100 < pieceValue Queen - pieceValue (v_piece (takes Pawn Queen ''e4'' ''d5'' ''exd5''))
   \<and> greedyPick (treeEngine []) [pawnTakesQueen] 0
       = Done (Some \<lparr>mfrom = ''e4'', mto = ''d5'', mpromotion = None\<rparr>)"
proof -
  let ?m = "takes Pawn Queen ''e4'' ''d5'' ''exd5''"
  have ms: "moves (treeEngine []) [pawnTakesQueen] = [quiet Pawn ''a2'' ''a3'' ''a3'', ?m]"
    by code_simp
  have a: "?m \<in> set (moves (treeEngine []) [pawnTakesQueen])" unfolding ms by simp
  have b: "v_captured ?m = Some Queen" by code_simp
  have c: "300 \<le> pieceValue Queen" by simp
  have d: "100 < pieceValue Queen - pieceValue (v_piece ?m)" by code_simp
  have e: "\<forall>m' \<in> set (moves (treeEngine []) [pawnTakesQueen]).
             \<forall>c'. v_captured m' = Some c' \<and> 300 \<le> pieceValue c' \<longrightarrow> m' = ?m"
    unfolding ms by (simp add: quiet_def)
  have f: "\<forall>m' \<in> set (moves (treeEngine []) [pawnTakesQueen]). \<not> marksMate m' \<and> \<not> marksCheck m'"
    unfolding ms by (simp add: quiet_def takes_def marksMate_def marksCheck_def)
  have s: "toShort ?m = \<lparr>mfrom = ''e4'', mto = ''d5'', mpromotion = None\<rparr>" by code_simp
  from greedy_returns_the_capture[OF a b c d e f, of 0] a b c d show ?thesis by (simp add: s)
qed

theorem greedy_capture_counterexample:
  "moves (treeEngine []) [queenTakesKnight]
     = [quiet Pawn ''a2'' ''a3'' ''a3'', takes Queen Knight ''d1'' ''d5'' ''Qxd5'']
   \<and> pieceValue Knight = 320
   \<and> greedyPick (treeEngine []) [queenTakesKnight] 0
       = Done (Some (toShort (quiet Pawn ''a2'' ''a3'' ''a3'')))
   \<and> greedyPick (treeEngine []) [queenTakesKnight] 0
       \<noteq> Done (Some (toShort (takes Queen Knight ''d1'' ''d5'' ''Qxd5'')))"
  by code_simp

text \<open>
  C9. The greedy strategy scores a legal move with 0, plus captured value minus moving
  value plus 1 when the move captures, plus \<open>10^9\<close> when its notation marks a checkmate or
  else plus 5 when it marks a check, and returns the first move, in the order of the
  enumeration, that reaches the greatest score: no move scores more, and every move
  before it scores strictly less.
\<close>

theorem greedy_first_maximum:
  assumes "moves e g \<noteq> []"
  shows "\<exists>i < length (moves e g).
           greedyPick e g r = Done (Some (toShort (moves e g ! i)))
         \<and> greedyPicker e g r = Done (Some (toShort (moves e g ! i)))
         \<and> (\<forall>j < length (moves e g). onePlyScore (moves e g ! j) \<le> onePlyScore (moves e g ! i))
         \<and> (\<forall>j < i. onePlyScore (moves e g ! j) < onePlyScore (moves e g ! i))"
  using greedyPick_first_max[OF assms, of r] unfolding greedyPicker_eq by blast

theorem greedy_first_maximum_witness:
  "moves (treeEngine []) [twoChecks] \<noteq> []
   \<and> map onePlyScore (moves (treeEngine []) [twoChecks]) = [0, 1, 5, 5]
   \<and> (\<exists>i < length (moves (treeEngine []) [twoChecks]).
         greedyPick (treeEngine []) [twoChecks] 0
           = Done (Some (toShort (moves (treeEngine []) [twoChecks] ! i)))
       \<and> (\<forall>j < i. onePlyScore (moves (treeEngine []) [twoChecks] ! j)
                    < onePlyScore (moves (treeEngine []) [twoChecks] ! i)))
   \<and> greedyPick (treeEngine []) [twoChecks] 0
       = Done (Some \<lparr>mfrom = ''g5'', mto = ''f7'', mpromotion = None\<rparr>)"
proof -
  have ne: "moves (treeEngine []) [twoChecks] \<noteq> []" by code_simp
  have sc: "map onePlyScore (moves (treeEngine []) [twoChecks]) = [0, 1, 5, 5]" by code_simp
  have run: "greedyPick (treeEngine []) [twoChecks] 0
       = Done (Some \<lparr>mfrom = ''g5'', mto = ''f7'', mpromotion = None\<rparr>)" by code_simp
  from greedy_first_maximum[OF ne, of 0]
  have "\<exists>i < length (moves (treeEngine []) [twoChecks]).
         greedyPick (treeEngine []) [twoChecks] 0
           = Done (Some (toShort (moves (treeEngine []) [twoChecks] ! i)))
       \<and> (\<forall>j < i. onePlyScore (moves (treeEngine []) [twoChecks] ! j)
                    < onePlyScore (moves (treeEngine []) [twoChecks] ! i))"
    by blast
  with ne sc run show ?thesis by blast
qed



end
